theory Spec2Isabelle
  imports Complex_Main
begin

section \<open>Errors and results\<close>

text \<open>
  The Python exceptions the selector and the surrounding script can raise; \<open>LibraryError f\<close>
  stands for whatever a call of the library function \<open>f\<close> raises in the script. A
  computation that may raise returns \<open>error + 'a\<close>, with \<open>Inl\<close> for the exception.
\<close>

datatype error = IndexError | ValueError | LinAlgError | NameError string | LibraryError string

definition rbind :: "error + 'a \<Rightarrow> ('a \<Rightarrow> error + 'b) \<Rightarrow> error + 'b" where
  "rbind m f = (case m of Inl e \<Rightarrow> Inl e | Inr x \<Rightarrow> f x)"

section \<open>Two-dimensional arrays\<close>

text \<open>
  A numpy array of two dimensions: its shape and its rows. The shape is kept beside the
  rows because an array with no row still has a column count, and one with no column
  still has a row count. Entries are real numbers: the arithmetic of the model is exact.
\<close>

datatype mat = Mat (nrows: nat) (ncols: nat) (rows: "real list list")

definition wf_mat :: "mat \<Rightarrow> bool" where
  "wf_mat A \<longleftrightarrow> length (rows A) = nrows A \<and> list_all (\<lambda>r. length r = ncols A) (rows A)"

definition ent :: "mat \<Rightarrow> nat \<Rightarrow> nat \<Rightarrow> real" where
  "ent A i j = rows A ! i ! j"

definition mk :: "nat \<Rightarrow> nat \<Rightarrow> (nat \<Rightarrow> nat \<Rightarrow> real) \<Rightarrow> mat" where
  "mk m n f = Mat m n (map (\<lambda>i. map (\<lambda>j. f i j) [0..<n]) [0..<m])"

definition eye :: "nat \<Rightarrow> mat" where
  "eye n = mk n n (\<lambda>i j. if i = j then 1 else 0)"

text \<open>\<open>A.T\<close>\<close>

definition transpose_mat :: "mat \<Rightarrow> mat" where
  "transpose_mat A = mk (ncols A) (nrows A) (\<lambda>i j. ent A j i)"

text \<open>\<open>-A\<close>\<close>

definition neg_mat :: "mat \<Rightarrow> mat" where
  "neg_mat A = mk (nrows A) (ncols A) (\<lambda>i j. - ent A i j)"

text \<open>\<open>numpy.dot(A, B)\<close> on two-dimensional arrays: the inner dimensions must agree.\<close>

definition dot :: "mat \<Rightarrow> mat \<Rightarrow> error + mat" where
  "dot A B =
     (if ncols A = nrows B
      then Inr (mk (nrows A) (ncols B)
                  (\<lambda>i j. sum_list (map (\<lambda>k. ent A i k * ent B k j) [0..<ncols A])))
      else Inl ValueError)"

text \<open>
  \<open>reduce(numpy.dot, (A, B, C, ...))\<close>: a left fold from the first element of the
  tuple, which the source never leaves empty.
\<close>

fun reduce_dot :: "mat \<Rightarrow> mat list \<Rightarrow> error + mat" where
  "reduce_dot acc [] = Inr acc"
| "reduce_dot acc (B # Bs) = (case dot acc B of Inl e \<Rightarrow> Inl e | Inr C \<Rightarrow> reduce_dot C Bs)"

text \<open>
  Broadcasting of numpy's elementwise operations: two extents are compatible when they
  are equal or one of them is 1, and the extent 1 is stretched to the other.
\<close>

definition bcast_ok :: "nat \<Rightarrow> nat \<Rightarrow> bool" where
  "bcast_ok a b \<longleftrightarrow> a = b \<or> a = 1 \<or> b = 1"

definition bcast :: "nat \<Rightarrow> nat \<Rightarrow> nat" where
  "bcast a b = (if a = 1 then b else a)"

definition bidx :: "nat \<Rightarrow> nat \<Rightarrow> nat" where
  "bidx n i = (if n = 1 then 0 else i)"

text \<open>\<open>A + B\<close>\<close>

definition add_mat :: "mat \<Rightarrow> mat \<Rightarrow> error + mat" where
  "add_mat A B =
     (if bcast_ok (nrows A) (nrows B) \<and> bcast_ok (ncols A) (ncols B)
      then Inr (mk (bcast (nrows A) (nrows B)) (bcast (ncols A) (ncols B))
                  (\<lambda>i j. ent A (bidx (nrows A) i) (bidx (ncols A) j)
                        + ent B (bidx (nrows B) i) (bidx (ncols B) j)))
      else Inl ValueError)"

text \<open>\<open>A * e\<close> with \<open>e\<close> of one dimension: \<open>e\<close> is laid along the columns.\<close>

definition mul_vec :: "mat \<Rightarrow> real list \<Rightarrow> error + mat" where
  "mul_vec A e =
     (if bcast_ok (ncols A) (length e)
      then Inr (mk (nrows A) (bcast (ncols A) (length e))
                  (\<lambda>i j. ent A i (bidx (ncols A) j) * e ! bidx (length e) j))
      else Inl ValueError)"

text \<open>
  \<open>A[idx]\<close> and \<open>A[:, idx]\<close> with \<open>idx = numpy.asarray(list of indices)\<close>. An index
  beyond the extent raises IndexError. So does the empty list: \<open>numpy.asarray([])\<close> is an
  array of floats, which numpy refuses as an index.
\<close>

definition take_rows :: "mat \<Rightarrow> nat list \<Rightarrow> error + mat" where
  "take_rows A idx =
     (if idx = [] \<or> list_ex (\<lambda>i. nrows A \<le> i) idx then Inl IndexError
      else Inr (mk (length idx) (ncols A) (\<lambda>i j. ent A (idx ! i) j)))"

definition take_cols :: "mat \<Rightarrow> nat list \<Rightarrow> error + mat" where
  "take_cols A idx =
     (if idx = [] \<or> list_ex (\<lambda>j. ncols A \<le> j) idx then Inl IndexError
      else Inr (mk (nrows A) (length idx) (\<lambda>i j. ent A i (idx ! j))))"

text \<open>\<open>A[idx][:, idx]\<close>\<close>

definition sub_block :: "mat \<Rightarrow> nat list \<Rightarrow> error + mat" where
  "sub_block A idx = rbind (take_rows A idx) (\<lambda>R. take_cols R idx)"

text \<open>
  \<open>A[:, lo:hi]\<close>, Python's slice: a bound left out is \<open>None\<close>, a negative bound counts
  from the end, and every bound is clipped to the extent. A slice never raises.
\<close>

definition clip :: "nat \<Rightarrow> int \<Rightarrow> nat" where
  "clip n i = (if i < 0 then nat (max 0 (i + int n)) else min n (nat i))"

definition slice_cols :: "mat \<Rightarrow> int option \<Rightarrow> int option \<Rightarrow> mat" where
  "slice_cols A lo hi =
     (let a = (case lo of None \<Rightarrow> 0 | Some i \<Rightarrow> clip (ncols A) i);
          b = (case hi of None \<Rightarrow> ncols A | Some i \<Rightarrow> clip (ncols A) i)
      in mk (nrows A) (b - a) (\<lambda>i j. ent A i (a + j)))"

text \<open>\<open>numpy.hstack\<close>: the arrays are laid side by side and must have the same rows.\<close>

definition hcat :: "mat \<Rightarrow> mat \<Rightarrow> mat" where
  "hcat A B = mk (nrows A) (ncols A + ncols B)
                 (\<lambda>i j. if j < ncols A then ent A i j else ent B i (j - ncols A))"

fun hstack :: "mat list \<Rightarrow> error + mat" where
  "hstack [] = Inl ValueError"
| "hstack (A # As) =
     (if list_all (\<lambda>B. nrows B = nrows A) As then Inr (foldl hcat A As) else Inl ValueError)"

section \<open>The objects the selector reads\<close>

text \<open>
  The libraries are external: \<open>mol.nao_nr()\<close>, \<open>lo.orth.orth_ao(mol, method='meta_lowdin')\<close>,
  \<open>mol.intor_symmetric('cint1e_ovlp_sph')\<close> of pyscf and \<open>scipy.linalg.eigh\<close> are
  parameters of the model. \<open>'m\<close> is the type of a \<open>gto.Mole\<close> object.
\<close>

record 'm libs =
  nao_nr :: "'m \<Rightarrow> nat"
  orth_ao :: "'m \<Rightarrow> error + mat"
  intor_symmetric :: "'m \<Rightarrow> error + mat"
  eigh :: "mat \<Rightarrow> error + (real list \<times> mat)"

text \<open>\<open>mc._scf\<close>: the mean-field object, with its orbital coefficients and energies.\<close>

record rohf =
  mo_coeff :: mat
  mo_energy :: "real list"

text \<open>
  \<open>mc\<close>: the active-space solver object. \<open>ncore\<close> and \<open>ncas\<close> are orbital counts.
\<close>

record 'm casscf =
  mol :: 'm
  ncore :: nat
  ncas :: nat
  scf :: rohf

text \<open>
  A \<open>gto.Mole\<close> object: its attribute \<open>spin\<close>, which the script assigns again after the
  molecule is built, and its other attributes in the extension of the record.
\<close>

record mole =
  spin :: int

text \<open>The module-level variable \<open>mol\<close>, which \<open>dmet_cas\<close> reads as a global.\<close>

record 'm globals =
  global_mol :: 'm


section \<open>The selector \<open>dmet_cas\<close>\<close>

text \<open>
  Lines 43 to 49: the orthogonalising transform and the overlap of the global \<open>mol\<close>, and
  the spin-summed density matrix in the orthogonal basis. \<open>dm\<close> is the pair
  \<open>(dm[0], dm[1])\<close>.
\<close>

definition dmet_orth :: "'m libs \<Rightarrow> 'm globals \<Rightarrow> mat \<times> mat \<Rightarrow> error + (mat \<times> mat \<times> mat)" where
  "dmet_orth L g dm =
     rbind (orth_ao L (global_mol g)) (\<lambda>corth.
     rbind (intor_symmetric L (global_mol g)) (\<lambda>s.
     rbind (dot (transpose_mat corth) s) (\<lambda>cinv.
     rbind (add_mat (fst dm) (snd dm)) (\<lambda>dmsum.
     rbind (reduce_dot cinv [dmsum, transpose_mat cinv]) (\<lambda>dm'.
     Inr (corth, s, dm'))))))"

text \<open>Lines 56 to 61: the natural orbitals of the impurity and of its complement.\<close>

definition notimp_of :: "nat \<Rightarrow> nat list \<Rightarrow> nat list" where
  "notimp_of nao implst = filter (\<lambda>i. i \<notin> set implst) [0..<nao]"

definition dmet_natorb ::
  "'m libs \<Rightarrow> nat \<Rightarrow> mat \<Rightarrow> mat \<Rightarrow> nat list \<Rightarrow> error + (mat \<times> mat)" where
  "dmet_natorb L nao corth dm implst =
     (let notimp = notimp_of nao implst in
      rbind (sub_block dm implst) (\<lambda>dii.
      rbind (eigh L (neg_mat dii)) (\<lambda>(occi, ui).
      rbind (sub_block dm notimp) (\<lambda>dbb.
      rbind (eigh L (neg_mat dbb)) (\<lambda>(occb, ub).
      rbind (take_cols corth notimp) (\<lambda>cb.
      rbind (dot cb ub) (\<lambda>bathorb.
      rbind (take_cols corth implst) (\<lambda>ci.
      rbind (dot ci ui) (\<lambda>imporb.
      Inr (bathorb, imporb))))))))))"

text \<open>Lines 62 to 64: the core, active and external blocks.\<close>

definition dmet_blocks :: "nat \<Rightarrow> int \<Rightarrow> mat \<Rightarrow> mat \<Rightarrow> error + (mat \<times> mat \<times> mat)" where
  "dmet_blocks ncore' nbath bathorb imporb =
     (let mocore = slice_cols bathorb None (Some (int ncore')) in
      rbind (hstack [imporb, slice_cols bathorb (Some (int ncore')) (Some (int ncore' + nbath))])
        (\<lambda>mocas.
      let moext = slice_cols bathorb (Some (int ncore' + nbath)) None in
      Inr (mocore, mocas, moext)))"

text \<open>Lines 39, 41 and 42: \<open>nbath = ncas - nimp\<close> with \<open>nimp = len(implst)\<close>.\<close>

definition dmet_nbath :: "'m casscf \<Rightarrow> nat list \<Rightarrow> int" where
  "dmet_nbath mc implst = int (ncas mc) - int (length implst)"

text \<open>Lines 37 to 64: everything before the canonicalisation.\<close>

definition dmet_partition ::
  "'m libs \<Rightarrow> 'm globals \<Rightarrow> 'm casscf \<Rightarrow> mat \<times> mat \<Rightarrow> nat list
    \<Rightarrow> error + (mat \<times> mat \<times> mat \<times> mat \<times> mat \<times> mat)" where
  "dmet_partition L g mc dm implst =
     (let nao = nao_nr L (mol mc);
          nbath = dmet_nbath mc implst in
      rbind (dmet_orth L g dm) (\<lambda>(corth, s, dm').
      rbind (dmet_natorb L nao corth dm' implst) (\<lambda>(bathorb, imporb).
      rbind (dmet_blocks (ncore mc) nbath bathorb imporb) (\<lambda>(mocore, mocas, moext).
      Inr (s, bathorb, imporb, mocore, mocas, moext)))))"

text \<open>Lines 70 and 71: the Fock matrix from the mean-field orbitals and energies.\<close>

definition dmet_fock :: "mat \<Rightarrow> rohf \<Rightarrow> error + mat" where
  "dmet_fock s mf =
     (let hf_orb = mo_coeff mf in
      rbind (mul_vec hf_orb (mo_energy mf)) (\<lambda>ce.
      reduce_dot s [ce, transpose_mat hf_orb, s]))"

text \<open>Lines 73 to 75 (and 76 to 78, 79 to 81): one block made canonical.\<close>

definition canonicalize :: "'m libs \<Rightarrow> mat \<Rightarrow> mat \<Rightarrow> error + mat" where
  "canonicalize L fock mo =
     rbind (reduce_dot (transpose_mat mo) [fock, mo]) (\<lambda>fockb.
     rbind (eigh L fockb) (\<lambda>(e, u).
     dot mo u))"

text \<open>The whole function, lines 35 to 87.\<close>

definition dmet_cas ::
  "'m libs \<Rightarrow> 'm globals \<Rightarrow> 'm casscf \<Rightarrow> mat \<times> mat \<Rightarrow> nat list \<Rightarrow> error + mat" where
  "dmet_cas L g mc dm implst =
     rbind (dmet_partition L g mc dm implst) (\<lambda>(s, bathorb, imporb, mocore, mocas, moext).
     rbind (dmet_fock s (scf mc)) (\<lambda>fock.
     rbind (canonicalize L fock mocore) (\<lambda>mocore'.
     rbind (canonicalize L fock mocas) (\<lambda>mocas'.
     rbind (canonicalize L fock moext) (\<lambda>moext'.
     hstack [mocore', mocas', moext'])))))"

section \<open>The notions the statements use\<close>

text \<open>
  The matrix product as a sum over the inner index, and the columns \<open>idx\<close> of an array:
  what \<open>dot\<close> and \<open>take_cols\<close> return when they do not raise.
\<close>

definition mm :: "mat \<Rightarrow> mat \<Rightarrow> mat" where
  "mm A B = mk (nrows A) (ncols B) (\<lambda>i j. \<Sum>k<ncols A. ent A i k * ent B k j)"

definition cols_of :: "mat \<Rightarrow> nat list \<Rightarrow> mat" where
  "cols_of A idx = mk (nrows A) (length idx) (\<lambda>i j. ent A i (idx ! j))"

text \<open>
  Column \<open>j\<close> of an array as a vector, the bilinear form \<open>x\<^sup>T S y\<close> of an overlap matrix, and
  the overlap of column \<open>i\<close> of \<open>A\<close> with column \<open>j\<close> of \<open>B\<close>.
\<close>

definition col :: "mat \<Rightarrow> nat \<Rightarrow> nat \<Rightarrow> real" where
  "col A j = (\<lambda>a. ent A a j)"

definition sip :: "mat \<Rightarrow> (nat \<Rightarrow> real) \<Rightarrow> (nat \<Rightarrow> real) \<Rightarrow> real" where
  "sip S x y = (\<Sum>a<nrows S. \<Sum>b<ncols S. x a * ent S a b * y b)"

definition gent :: "mat \<Rightarrow> mat \<Rightarrow> nat \<Rightarrow> mat \<Rightarrow> nat \<Rightarrow> real" where
  "gent S A i B j = sip S (col A i) (col B j)"

text \<open>
  The columns of \<open>A\<close> are orthonormal under \<open>S\<close>; every column of \<open>A\<close> is orthogonal under
  \<open>S\<close> to every column of \<open>B\<close>; the columns of a square \<open>u\<close> are orthonormal.
\<close>

definition orthonormal :: "mat \<Rightarrow> mat \<Rightarrow> bool" where
  "orthonormal S A \<longleftrightarrow> nrows A = nrows S \<and> nrows A = ncols S \<and>
     (\<forall>i<ncols A. \<forall>j<ncols A. gent S A i A j = (if i = j then 1 else 0))"

definition orthogonal_to :: "mat \<Rightarrow> mat \<Rightarrow> mat \<Rightarrow> bool" where
  "orthogonal_to S A B \<longleftrightarrow> nrows A = nrows S \<and> nrows B = ncols S \<and>
     (\<forall>i<ncols A. \<forall>j<ncols B. gent S A i B j = 0)"

definition ortho_mat :: "mat \<Rightarrow> bool" where
  "ortho_mat u \<longleftrightarrow> nrows u = ncols u \<and>
     (\<forall>i<ncols u. \<forall>j<ncols u.
        (\<Sum>k<nrows u. ent u k i * ent u k j) = (if i = j then 1 else 0))"

text \<open>
  What the statements ask of \<open>scipy.linalg.eigh\<close>. Whenever it returns on a square array of
  extent \<open>n\<close>, the eigenvectors are an \<open>n\<close> by \<open>n\<close> array \<open>v\<close> with \<open>v\<^sup>T v = 1\<close>:
\<close>

definition eigh_sound :: "'m libs \<Rightarrow> bool" where
  "eigh_sound L \<longleftrightarrow>
     (\<forall>A w v. nrows A = ncols A \<longrightarrow> eigh L A = Inr (w, v) \<longrightarrow>
        nrows v = nrows A \<and> ncols v = nrows A \<and>
        dot (transpose_mat v) v = Inr (eye (nrows A)))"

text \<open>The part of this about the shape alone:\<close>

definition eigh_shape :: "'m libs \<Rightarrow> bool" where
  "eigh_shape L \<longleftrightarrow>
     (\<forall>A w v. nrows A = ncols A \<longrightarrow> eigh L A = Inr (w, v) \<longrightarrow>
        nrows v = nrows A \<and> ncols v = nrows A)"

text \<open>It returns on every square array:\<close>

definition eigh_total :: "'m libs \<Rightarrow> bool" where
  "eigh_total L \<longleftrightarrow> (\<forall>A. nrows A = ncols A \<longrightarrow> (\<exists>w v. eigh L A = Inr (w, v)))"

text \<open>
  \<open>(w, v)\<close> is an eigendecomposition of \<open>A\<close> with the eigenvalues in ascending order:
  \<open>A v = v diag(w)\<close>, \<open>v\<^sup>T v = 1\<close> and \<open>w\<close> sorted.
\<close>

definition eigh_correct :: "mat \<Rightarrow> real list \<Rightarrow> mat \<Rightarrow> bool" where
  "eigh_correct A w v \<longleftrightarrow>
     nrows A = ncols A \<and> nrows v = nrows A \<and> ncols v = nrows A \<and> length w = nrows A \<and>
     sorted w \<and> ortho_mat v \<and>
     (\<forall>i<nrows A. \<forall>j<nrows A. (\<Sum>k<ncols A. ent A i k * ent v k j) = ent v i j * w ! j)"

text \<open>
  The occupation numbers of the columns of \<open>u\<close> in the density matrix \<open>D\<close>: the diagonal of
  \<open>u\<^sup>T D u\<close>.
\<close>

definition occupations :: "mat \<Rightarrow> mat \<Rightarrow> real list" where
  "occupations D u = map (\<lambda>k. sip D (col u k) (col u k)) [0..<ncols u]"

text \<open>The block \<open>D[idx, idx]\<close> of a matrix, entry by entry.\<close>

definition spec_sub :: "mat \<Rightarrow> nat list \<Rightarrow> mat" where
  "spec_sub D idx = mk (length idx) (length idx) (\<lambda>a b. ent D (idx ! a) (idx ! b))"

text \<open>
  The preconditions of the selector on the sizes and the impurity indices: the indices are
  distinct and below \<open>nao\<close>, \<open>nimp \<le> ncas\<close> and \<open>ncore + ncas \<le> nao\<close>.
\<close>

definition valid_input :: "nat \<Rightarrow> nat \<Rightarrow> nat \<Rightarrow> nat list \<Rightarrow> bool" where
  "valid_input nao nc na implst \<longleftrightarrow>
     distinct implst \<and> (\<forall>i\<in>set implst. i < nao) \<and> length implst \<le> na \<and> nc + na \<le> nao"

text \<open>
  The arrays have the shapes of the data model: the overlap and the two density matrices are
  \<open>n\<close> by \<open>n\<close>, the transform is \<open>n\<close> by \<open>nao\<close>, and the mean-field coefficients are
  \<open>n\<close> by \<open>nmo\<close> with \<open>nmo\<close> energies. The two library calls of pyscf return.
\<close>

definition well_shaped :: "'m libs \<Rightarrow> 'm globals \<Rightarrow> 'm casscf \<Rightarrow> mat \<times> mat \<Rightarrow> bool" where
  "well_shaped L g mc dm \<longleftrightarrow>
     (\<exists>corth S.
        orth_ao L (global_mol g) = Inr corth \<and> intor_symmetric L (global_mol g) = Inr S \<and>
        nrows S = ncols S \<and> nrows corth = nrows S \<and> ncols corth = nao_nr L (mol mc) \<and>
        nrows (fst dm) = nrows S \<and> ncols (fst dm) = nrows S \<and>
        nrows (snd dm) = nrows S \<and> ncols (snd dm) = nrows S \<and>
        nrows (mo_coeff (scf mc)) = nrows S \<and>
        length (mo_energy (scf mc)) = ncols (mo_coeff (scf mc)))"

subsection \<open>The steps as the specification words them\<close>

text \<open>
  Steps 1 and 2: \<open>dm_mixed = dm_alpha + dm_beta\<close>, \<open>cinv = orth_transform\<^sup>T S\<close> and
  \<open>dm_orth = cinv dm_mixed cinv\<^sup>T\<close>, entry by entry.
\<close>

definition spec_dm_mixed :: "mat \<Rightarrow> mat \<Rightarrow> mat" where
  "spec_dm_mixed dma dmb = mk (nrows dma) (ncols dma) (\<lambda>k l. ent dma k l + ent dmb k l)"

definition spec_cinv :: "mat \<Rightarrow> mat \<Rightarrow> mat" where
  "spec_cinv corth s =
     mk (ncols corth) (ncols s) (\<lambda>i k. \<Sum>a<nrows corth. ent corth a i * ent s a k)"

definition spec_dm_orth :: "mat \<Rightarrow> mat \<Rightarrow> mat \<Rightarrow> mat \<Rightarrow> mat" where
  "spec_dm_orth corth s dma dmb =
     (let cinv = spec_cinv corth s; mixed = spec_dm_mixed dma dmb
      in mk (nrows cinv) (nrows cinv)
           (\<lambda>i j. \<Sum>k<nrows mixed. \<Sum>l<ncols mixed. ent cinv i k * ent mixed k l * ent cinv j l))"

text \<open>
  Step 6: the Fock matrix \<open>S (hf_coeff * hf_energy) hf_coeff\<^sup>T S\<close>, the Fock matrix of a
  block \<open>B\<^sup>T Fock B\<close>, and the block rotated by the eigenvectors of its Fock matrix.
\<close>

definition spec_fock :: "mat \<Rightarrow> mat \<Rightarrow> real list \<Rightarrow> mat" where
  "spec_fock s c e =
     mk (nrows s) (ncols s)
       (\<lambda>i j. \<Sum>a<nrows c. \<Sum>p<ncols c. \<Sum>b<nrows c.
                 ent s i a * (ent c a p * e ! p) * ent c b p * ent s b j)"

definition spec_block_fock :: "mat \<Rightarrow> mat \<Rightarrow> mat" where
  "spec_block_fock F B = mk (ncols B) (ncols B) (\<lambda>i j. gent F B i B j)"

definition spec_canonical :: "'m libs \<Rightarrow> mat \<Rightarrow> mat \<Rightarrow> error + mat" where
  "spec_canonical L F B =
     (case eigh L (spec_block_fock F B) of Inl x \<Rightarrow> Inl x | Inr (e, u) \<Rightarrow> Inr (mm B u))"

text \<open>Step 7: the columns of the core, then of the active, then of the external block.\<close>

definition spec_assemble :: "mat \<Rightarrow> mat \<Rightarrow> mat \<Rightarrow> mat" where
  "spec_assemble c a e =
     mk (nrows c) (ncols c + ncols a + ncols e)
       (\<lambda>i j. if j < ncols c then ent c i j
              else if j < ncols c + ncols a then ent a i (j - ncols c)
              else ent e i (j - ncols c - ncols a))"

section \<open>A reference eigensolver and a test molecule\<close>

text \<open>
  An eigensolver for diagonal matrices: the eigenvalues are the diagonal in ascending
  order, and the eigenvectors the unit vectors in that order. On a diagonal matrix this is
  what \<open>scipy.linalg.eigh\<close> returns (up to the signs of the vectors).
\<close>

definition eigh_diag :: "mat \<Rightarrow> error + (real list \<times> mat)" where
  "eigh_diag A =
     (if nrows A \<noteq> ncols A then Inl ValueError
      else let n = nrows A;
               p = sort_key (\<lambda>i. ent A i i) [0..<n]
           in Inr (map (\<lambda>i. ent A i i) p, mk n n (\<lambda>i j. if i = p ! j then 1 else 0)))"

text \<open>
  A molecule object that carries its number of orbitals, its orthogonalising transform and
  its overlap matrix, and the libraries that read them off it.
\<close>

record stub_mol = mole +
  stub_nao :: nat
  stub_orth :: mat
  stub_ovlp :: mat

definition stub_libs :: "stub_mol libs" where
  "stub_libs = \<lparr> nao_nr = stub_nao, orth_ao = (\<lambda>m. Inr (stub_orth m)),
                 intor_symmetric = (\<lambda>m. Inr (stub_ovlp m)), eigh = eigh_diag \<rparr>"

definition diag_mat :: "real list \<Rightarrow> mat" where
  "diag_mat d = mk (length d) (length d) (\<lambda>i j. if i = j then d ! i else 0)"

text \<open>
  Four orbitals, the identity as overlap and as transform, one core and two active
  orbitals, the spin-summed density \<open>diag(0, 1, 2, 1)\<close> and the Fock matrix
  \<open>diag(-3, 2, -1, 1)\<close>.
\<close>

definition ex_mol :: stub_mol where
  "ex_mol = \<lparr> spin = 4, stub_nao = 4, stub_orth = eye 4, stub_ovlp = eye 4 \<rparr>"

definition ex_g :: "stub_mol globals" where
  "ex_g = \<lparr> global_mol = ex_mol \<rparr>"

definition ex_mc :: "stub_mol casscf" where
  "ex_mc = \<lparr> mol = ex_mol, ncore = 1, ncas = 2,
             scf = \<lparr> mo_coeff = eye 4, mo_energy = [-3, 2, -1, 1] \<rparr> \<rparr>"

definition ex_dm :: "mat \<times> mat" where
  "ex_dm = (diag_mat [0, 1, 1, 1], diag_mat [0, 0, 1, 0])"

text \<open>
  The same molecule in a basis whose first orbital has norm 2: the overlap is
  \<open>diag(4, 1, 1, 1)\<close> and the transform \<open>diag(1/2, 1, 1, 1)\<close>.
\<close>

definition ex_mol2 :: stub_mol where
  "ex_mol2 = \<lparr> spin = 4, stub_nao = 4, stub_orth = diag_mat [1/2, 1, 1, 1],
               stub_ovlp = diag_mat [4, 1, 1, 1] \<rparr>"

definition ex_g2 :: "stub_mol globals" where
  "ex_g2 = \<lparr> global_mol = ex_mol2 \<rparr>"

text \<open>A matrix is diagonal: the reference eigensolver is correct on these.\<close>

definition is_diag :: "mat \<Rightarrow> bool" where
  "is_diag A \<longleftrightarrow>
     list_all (\<lambda>i. list_all (\<lambda>j. i = j \<or> ent A i j = 0) [0..<ncols A]) [0..<nrows A]"

section \<open>The script around the selector: which names are bound\<close>

text \<open>
  The statements of the module, each as the steps Python takes in evaluating it, in
  order: a name of the module is looked up (\<open>Read\<close>), a library function or method is
  called (\<open>Ext\<close>), the body of \<open>dmet_cas\<close> is entered (\<open>Sel\<close>), a name is bound
  (\<open>Bind\<close>). Builtins (\<open>enumerate\<close>, \<open>print\<close>) always resolve and are left out; the
  variables of a list comprehension are local to it. What a library call computes is not
  modelled, only whether it returns: \<open>ok f\<close> says that the calls of \<open>f\<close> return.
\<close>

datatype step = Read string | Ext string | Sel | Bind string

text \<open>The state of a run: the names bound, the exception raised if any, and how often the
  body of the selector has been entered.\<close>

record pstate =
  bound :: "string list"
  raised :: "error option"
  sel_calls :: nat

fun exec_step :: "(string \<Rightarrow> bool) \<Rightarrow> step \<Rightarrow> pstate \<Rightarrow> pstate" where
  "exec_step ok s st =
     (if raised st \<noteq> None then st
      else case s of
        Read x \<Rightarrow> if x \<in> set (bound st) then st else st\<lparr>raised := Some (NameError x)\<rparr>
      | Ext f \<Rightarrow> if ok f then st else st\<lparr>raised := Some (LibraryError f)\<rparr>
      | Sel \<Rightarrow> st\<lparr>sel_calls := Suc (sel_calls st)\<rparr>
      | Bind x \<Rightarrow> st\<lparr>bound := x # bound st\<rparr>)"

definition run :: "(string \<Rightarrow> bool) \<Rightarrow> step list \<Rightarrow> pstate \<Rightarrow> pstate" where
  "run ok steps st = fold (exec_step ok) steps st"

definition init_state :: pstate where
  "init_state = \<lparr> bound = [], raised = None, sel_calls = 0 \<rparr>"

text \<open>The module, line by line. An assignment to an attribute reads the name of its object.\<close>

definition script :: "(nat \<times> step list) list" where
  "script =
    [(3, [Ext ''import functools'', Bind ''reduce'']),
     (4, [Ext ''import numpy'', Bind ''numpy'']),
     (5, [Ext ''import scipy.linalg'', Bind ''scipy'']),
     (6, [Ext ''import pyscf'', Bind ''scf'']),
     (7, [Ext ''import pyscf'', Bind ''gto'']),
     (8, [Ext ''import pyscf'', Bind ''mcscf'', Bind ''fci'']),
     (9, [Ext ''import pyscf'', Bind ''dmrgscf'']),
     (10, [Ext ''import pyscf'', Bind ''mrpt'']),
     (12, [Read ''dmrgscf'']),
     (35, [Bind ''dmet_cas'']),
     (98, [Read ''gto'', Ext ''gto.Mole'', Bind ''mol'']),
     (99, [Read ''mol'']),
     (138, [Read ''mol'']),
     (139, [Read ''mol'']),
     (140, [Read ''mol'']),
     (141, [Read ''mol'']),
     (142, [Read ''mol'']),
     (143, [Read ''mol'', Ext ''mol.build'']),
     (145, [Read ''scf'', Read ''mol'', Ext ''scf.ROHF'', Bind ''mf'']),
     (146, [Read ''scf'', Read ''mf'', Ext ''scf.fast_newton'', Bind ''mf'']),
     (156, [Read ''mcscf'', Read ''dmrgscf'', Read ''m'', Ext ''dmrgscf.dmrgci.DMRGSCF'',
            Ext ''mcscf.density_fit'', Bind ''mc'']),
     (157, [Read ''mol'', Ext ''mol.spheric_labels'', Bind ''idx'']),
     (159, [Read ''dmet_cas'', Read ''mc'', Read ''mf'', Ext ''mf.make_rdm1'', Read ''idx'',
            Sel, Ext ''dmet_cas'', Bind ''mo'']),
     (161, [Read ''mc'']),
     (162, [Read ''mc'', Read ''mo'', Ext ''mc.kernel'']),
     (164, [Read ''mc'', Bind ''e_q'']),
     (165, [Read ''mc'', Read ''mc'', Read ''mc'', Read ''mc'', Bind ''cas_q'']),
     (170, [Read ''mrpt'', Read ''mc'', Ext ''mrpt.nevpt2.sc_nevpt'', Bind ''ept2_q'']),
     (182, [Read ''mol'']),
     (184, [Read ''scf'', Read ''mol'', Ext ''scf.ROHF'', Bind ''mf'']),
     (185, [Read ''scf'', Read ''mf'', Ext ''scf.fast_newton'', Bind ''mf'']),
     (194, [Read ''mcscf'', Read ''dmrgscf'', Read ''m'', Ext ''dmrgscf.dmrgci.DMRGSCF'',
            Ext ''mcscf.density_fit'', Bind ''mc'']),
     (195, [Read ''mol'', Ext ''mol.spheric_labels'', Bind ''idx'']),
     (197, [Read ''dmet_cas'', Read ''mc'', Read ''mf'', Ext ''mf.make_rdm1'', Read ''idx3d'',
            Sel, Ext ''dmet_cas'', Bind ''mo'']),
     (198, [Read ''mc'']),
     (199, [Read ''mc'', Read ''mo'', Ext ''mc.kernel'']),
     (200, [Read ''mc'', Bind ''mo'']),
     (202, [Read ''mc'', Bind ''e_t'']),
     (203, [Read ''mc'', Read ''mc'', Read ''mc'', Read ''mc'', Bind ''cas_t'']),
     (208, [Read ''mrpt'', Read ''mc'', Ext ''mrpt.nevpt2.sc_nevpt'', Bind ''ept2_t'']),
     (210, [Read ''e_t'', Read ''e_q'', Read ''e_t'', Read ''e_q'']),
     (214, [Read ''reduce'', Read ''numpy'', Read ''cas_t'', Read ''mol'', Ext ''mol.intor'',
            Read ''cas_q'', Ext ''reduce'', Bind ''s'']),
     (215, [Read ''numpy'', Read ''s'', Ext ''numpy.linalg.det'']),
     (217, [Read ''ept2_t'', Read ''ept2_q'', Read ''ept2_t'', Read ''ept2_q'']),
     (231, [Ext ''import pyscf'', Bind ''tools'']),
     (232, [Read ''tools'', Read ''mol'', Read ''cas_t'', Ext ''tools.molden.from_mo'']),
     (233, [Read ''tools'', Read ''mol'', Read ''cas_q'', Ext ''tools.molden.from_mo''])]"

definition steps_of :: "(nat \<times> step list) list \<Rightarrow> step list" where
  "steps_of stmts = concat (map snd stmts)"

text \<open>The triplet branch: lines 182 to 208.\<close>

definition triplet_branch :: "(nat \<times> step list) list" where
  "triplet_branch = filter (\<lambda>(l, ss). 182 \<le> l \<and> l \<le> 208) script"

text \<open>The names a list of steps binds, and whether it enters the selector.\<close>

definition binds_of :: "step list \<Rightarrow> string list" where
  "binds_of steps = concat (map (\<lambda>s. case s of Bind x \<Rightarrow> [x] | _ \<Rightarrow> []) steps)"

definition enters_selector :: "step list \<Rightarrow> bool" where
  "enters_selector steps \<longleftrightarrow> Sel \<in> set steps"

text \<open>
  The quintet part, lines 3 to 170, and the state it leaves when it is run with every
  library call returning from a state in which the name \<open>m\<close> has been bound beforehand
  (as a user of the script would, to get past line 156).
\<close>

definition quintet_part :: "(nat \<times> step list) list" where
  "quintet_part = filter (\<lambda>(l, ss). l < 182) script"

definition m_bound :: pstate where
  "m_bound = init_state\<lparr>bound := [''m'']\<rparr>"

definition quintet_done :: pstate where
  "quintet_done = run (\<lambda>f. True) (steps_of quintet_part) m_bound"

section \<open>Basic facts about arrays\<close>

lemma nrows_mk [simp]: "nrows (mk m n f) = m"
  by (simp add: mk_def)

lemma ncols_mk [simp]: "ncols (mk m n f) = n"
  by (simp add: mk_def)

lemma wf_mk [simp]: "wf_mat (mk m n f)"
  by (simp add: mk_def wf_mat_def list_all_iff)

lemma ent_mk [simp]: "i < m \<Longrightarrow> j < n \<Longrightarrow> ent (mk m n f) i j = f i j"
  by (simp add: mk_def ent_def)

lemma mat_eqI:
  assumes "wf_mat A" "wf_mat B" "nrows A = nrows B" "ncols A = ncols B"
    and "\<And>i j. i < nrows A \<Longrightarrow> j < ncols A \<Longrightarrow> ent A i j = ent B i j"
  shows "A = B"
proof -
  have "rows A = rows B"
  proof (rule nth_equalityI)
    show "length (rows A) = length (rows B)"
      using assms by (simp add: wf_mat_def)
  next
    fix i assume i: "i < length (rows A)"
    then have iA: "i < nrows A" and iB: "i < length (rows B)"
      using assms by (simp_all add: wf_mat_def)
    have la: "length (rows A ! i) = ncols A"
      using assms(1) i by (simp add: wf_mat_def list_all_length)
    have lb: "length (rows B ! i) = ncols A"
      using assms(2,4) iB by (simp add: wf_mat_def list_all_length)
    show "rows A ! i = rows B ! i"
    proof (rule nth_equalityI)
      show "length (rows A ! i) = length (rows B ! i)"
        using la lb by simp
    next
      fix j assume "j < length (rows A ! i)"
      then have "j < ncols A" using la by simp
      from assms(5)[OF iA this] show "rows A ! i ! j = rows B ! i ! j"
        by (simp add: ent_def)
    qed
  qed
  then show ?thesis
    using assms(3,4) by (cases A; cases B) simp
qed

lemma mk_cong:
  assumes "\<And>i j. i < m \<Longrightarrow> j < n \<Longrightarrow> f i j = g i j"
  shows "mk m n f = mk m n g"
  by (rule mat_eqI) (simp_all add: assms)

lemma rbind_Inr [simp]: "rbind (Inr x) f = f x"
  by (simp add: rbind_def)

lemma rbind_Inl [simp]: "rbind (Inl e) f = Inl e"
  by (simp add: rbind_def)

lemma rbind_eq_Inr:
  "rbind m f = Inr y \<longleftrightarrow> (\<exists>x. m = Inr x \<and> f x = Inr y)"
  by (cases m) simp_all


section \<open>Products, columns and overlaps\<close>


lemma sum_list_upt: "sum_list (map f [0..<n]) = (\<Sum>k<n. f k)"
  by (simp add: interv_sum_list_conv_sum_set_nat atLeast0LessThan)


lemma dot_mm: "dot A B = (if ncols A = nrows B then Inr (mm A B) else Inl ValueError)"
  by (simp add: dot_def mm_def sum_list_upt)

lemma dot_eq_Inr: "dot A B = Inr C \<longleftrightarrow> ncols A = nrows B \<and> C = mm A B"
  by (auto simp: dot_mm)

lemma nrows_mm [simp]: "nrows (mm A B) = nrows A" by (simp add: mm_def)
lemma ncols_mm [simp]: "ncols (mm A B) = ncols B" by (simp add: mm_def)
lemma wf_mm [simp]: "wf_mat (mm A B)" by (simp add: mm_def)
lemma ent_mm: "i < nrows A \<Longrightarrow> j < ncols B \<Longrightarrow> ent (mm A B) i j = (\<Sum>k<ncols A. ent A i k * ent B k j)"
  by (simp add: mm_def)

lemma nrows_tr [simp]: "nrows (transpose_mat A) = ncols A" by (simp add: transpose_mat_def)
lemma ncols_tr [simp]: "ncols (transpose_mat A) = nrows A" by (simp add: transpose_mat_def)
lemma wf_tr [simp]: "wf_mat (transpose_mat A)" by (simp add: transpose_mat_def)
lemma ent_tr [simp]: "i < ncols A \<Longrightarrow> j < nrows A \<Longrightarrow> ent (transpose_mat A) i j = ent A j i"
  by (simp add: transpose_mat_def)

lemma reduce_dot3: "reduce_dot A [B, C] = Inr D \<longleftrightarrow> ncols A = nrows B \<and> ncols B = nrows C \<and> D = mm (mm A B) C"
  by (auto simp: dot_mm split: sum.splits if_splits)

lemma reduce_dot4: "reduce_dot A [B, C, E] = Inr D \<longleftrightarrow>
   ncols A = nrows B \<and> ncols B = nrows C \<and> ncols C = nrows E \<and> D = mm (mm (mm A B) C) E"
  by (auto simp: dot_mm split: sum.splits if_splits)

declare reduce_dot.simps [simp del]





lemma ent_gram:
  assumes "nrows A = nrows S" "ncols S = nrows B" "i < ncols A" "j < ncols B"
  shows "ent (mm (mm (transpose_mat A) S) B) i j = gent S A i B j"
proof -
  have "ent (mm (mm (transpose_mat A) S) B) i j
      = (\<Sum>b<ncols S. (\<Sum>a<nrows S. ent A a i * ent S a b) * ent B b j)"
    using assms by (simp add: ent_mm)
  also have "\<dots> = (\<Sum>b<ncols S. \<Sum>a<nrows S. ent A a i * ent S a b * ent B b j)"
    by (simp add: sum_distrib_right)
  also have "\<dots> = (\<Sum>a<nrows S. \<Sum>b<ncols S. ent A a i * ent S a b * ent B b j)"
    by (rule sum.swap)
  finally show ?thesis by (simp add: gent_def sip_def col_def)
qed

lemma sip_cong:
  assumes "\<And>a. a < nrows S \<Longrightarrow> x a = x' a" "\<And>b. b < ncols S \<Longrightarrow> y b = y' b"
  shows "sip S x y = sip S x' y'"
  unfolding sip_def by (intro sum.cong refl) (simp add: assms)

lemma sip_sum_left: "sip S (\<lambda>a. \<Sum>k<m. c k * X k a) y = (\<Sum>k<m. c k * sip S (X k) y)"
proof -
  have "sip S (\<lambda>a. \<Sum>k<m. c k * X k a) y = (\<Sum>a<nrows S. \<Sum>b<ncols S. \<Sum>k<m. c k * (X k a * ent S a b * y b))"
    by (simp add: sip_def sum_distrib_right mult.assoc)
  also have "\<dots> = (\<Sum>a<nrows S. \<Sum>k<m. \<Sum>b<ncols S. c k * (X k a * ent S a b * y b))"
    by (intro sum.cong refl sum.swap)
  also have "\<dots> = (\<Sum>k<m. \<Sum>a<nrows S. \<Sum>b<ncols S. c k * (X k a * ent S a b * y b))"
    by (rule sum.swap)
  finally show ?thesis by (simp add: sip_def sum_distrib_left)
qed

lemma sip_sum_right: "sip S x (\<lambda>b. \<Sum>k<m. c k * Y k b) = (\<Sum>k<m. c k * sip S x (Y k))"
proof -
  have "sip S x (\<lambda>b. \<Sum>k<m. c k * Y k b) = (\<Sum>a<nrows S. \<Sum>b<ncols S. \<Sum>k<m. c k * (x a * ent S a b * Y k b))"
    by (simp add: sip_def sum_distrib_left mult_ac)
  also have "\<dots> = (\<Sum>a<nrows S. \<Sum>k<m. \<Sum>b<ncols S. c k * (x a * ent S a b * Y k b))"
    by (intro sum.cong refl sum.swap)
  also have "\<dots> = (\<Sum>k<m. \<Sum>a<nrows S. \<Sum>b<ncols S. c k * (x a * ent S a b * Y k b))"
    by (rule sum.swap)
  finally show ?thesis by (simp add: sip_def sum_distrib_left)
qed

lemma gent_mm:
  assumes "nrows A = nrows S" "nrows B = ncols S" "ncols A = nrows u" "ncols B = nrows v"
    "i < ncols u" "j < ncols v"
  shows "gent S (mm A u) i (mm B v) j
       = (\<Sum>k<ncols A. \<Sum>l<ncols B. ent u k i * ent v l j * gent S A k B l)"
proof -
  have "gent S (mm A u) i (mm B v) j
      = sip S (\<lambda>a. \<Sum>k<ncols A. ent u k i * col A k a) (\<lambda>b. \<Sum>l<ncols B. ent v l j * col B l b)"
    unfolding gent_def using assms
    by (intro sip_cong) (simp_all add: col_def ent_mm mult.commute)
  also have "\<dots> = (\<Sum>k<ncols A. ent u k i * (\<Sum>l<ncols B. ent v l j * sip S (col A k) (col B l)))"
    by (simp add: sip_sum_left sip_sum_right)
  finally show ?thesis
    by (simp add: gent_def sum_distrib_left mult.assoc)
qed






lemma nrows_cols_of [simp]: "nrows (cols_of A idx) = nrows A" by (simp add: cols_of_def)
lemma ncols_cols_of [simp]: "ncols (cols_of A idx) = length idx" by (simp add: cols_of_def)
lemma wf_cols_of [simp]: "wf_mat (cols_of A idx)" by (simp add: cols_of_def)

lemma take_cols_eq_Inr:
  "take_cols A idx = Inr C \<longleftrightarrow> idx \<noteq> [] \<and> (\<forall>j\<in>set idx. j < ncols A) \<and> C = cols_of A idx"
  by (force simp: take_cols_def cols_of_def list_ex_iff not_le)

lemma slice_cols_cols_of:
  "slice_cols A lo hi =
     cols_of A [(case lo of None \<Rightarrow> 0 | Some i \<Rightarrow> clip (ncols A) i) ..<
                (case hi of None \<Rightarrow> ncols A | Some i \<Rightarrow> clip (ncols A) i)]"
  unfolding slice_cols_def cols_of_def Let_def
  by (simp, rule mk_cong) simp

lemma gent_cols_of:
  assumes "nrows A = nrows S" "nrows B = ncols S" "i < length ia" "j < length ib"
  shows "gent S (cols_of A ia) i (cols_of B ib) j = gent S A (ia ! i) B (ib ! j)"
  unfolding gent_def using assms
  by (intro sip_cong) (simp_all add: col_def cols_of_def)

lemma orthonormal_cols_of:
  assumes "orthonormal S A" "distinct idx" "\<forall>j\<in>set idx. j < ncols A"
  shows "orthonormal S (cols_of A idx)"
  using assms unfolding orthonormal_def
  by (auto simp: gent_cols_of nth_eq_iff_index_eq)

lemma orthogonal_cols_of_same:
  assumes "orthonormal S A" "set ia \<inter> set ib = {}" "\<forall>j\<in>set ia. j < ncols A" "\<forall>j\<in>set ib. j < ncols A"
  shows "orthogonal_to S (cols_of A ia) (cols_of A ib)"
proof -
  have ne: "ia ! i \<noteq> ib ! j" if "i < length ia" "j < length ib" for i j
    using that assms(2) by (metis disjoint_iff nth_mem)
  show ?thesis
    using assms ne unfolding orthonormal_def orthogonal_to_def
    by (auto simp: gent_cols_of)
qed

lemma orthogonal_cols_of:
  assumes "orthogonal_to S A B" "\<forall>j\<in>set ia. j < ncols A" "\<forall>j\<in>set ib. j < ncols B"
  shows "orthogonal_to S (cols_of A ia) (cols_of B ib)"
  using assms unfolding orthogonal_to_def
  by (auto simp: gent_cols_of)

lemma sum_delta_lt: "(\<Sum>l<(n::nat). f l * (if k = l then 1 else 0)) = (if k < n then f k else (0::real))"
proof -
  have "(\<Sum>l<n. f l * (if k = l then 1 else 0)) = (\<Sum>l\<in>{..<n}. if k = l then f l else 0)"
    by (intro sum.cong refl) simp
  also have "\<dots> = (if k < n then f k else 0)"
    by (simp add: sum.delta')
  finally show ?thesis .
qed

lemma orthonormal_rot:
  assumes "orthonormal S A" "ortho_mat u" "nrows u = ncols A"
  shows "orthonormal S (mm A u)"
proof -
  have d: "nrows A = nrows S" "nrows A = ncols S" using assms(1) by (simp_all add: orthonormal_def)
  have g: "gent S A k A l = (if k = l then 1 else 0)" if "k < ncols A" "l < ncols A" for k l
    using assms(1) that by (simp add: orthonormal_def)
  have "gent S (mm A u) i (mm A u) j = (if i = j then 1 else 0)" if ij: "i < ncols u" "j < ncols u" for i j
  proof -
    have "gent S (mm A u) i (mm A u) j
        = (\<Sum>k<ncols A. \<Sum>l<ncols A. ent u k i * ent u l j * gent S A k A l)"
      using d assms(3) ij by (simp add: gent_mm)
    also have "\<dots> = (\<Sum>k<ncols A. \<Sum>l<ncols A. ent u k i * ent u l j * (if k = l then 1 else 0))"
      by (intro sum.cong refl) (simp add: g)
    also have "\<dots> = (\<Sum>k<ncols A. ent u k i * ent u k j)"
      by (intro sum.cong refl) (simp add: sum_delta_lt)
    also have "\<dots> = (\<Sum>k<nrows u. ent u k i * ent u k j)"
      using assms(3) by simp
    also have "\<dots> = (if i = j then 1 else 0)"
      using assms(2) ij unfolding ortho_mat_def by blast
    finally show ?thesis .
  qed
  then show ?thesis using d by (simp add: orthonormal_def)
qed

lemma orthogonal_rot:
  assumes "orthogonal_to S A B" "nrows u = ncols A" "nrows v = ncols B"
  shows "orthogonal_to S (mm A u) (mm B v)"
proof -
  have d: "nrows A = nrows S" "nrows B = ncols S" using assms(1) by (simp_all add: orthogonal_to_def)
  have g: "gent S A k B l = 0" if "k < ncols A" "l < ncols B" for k l
    using assms(1) that by (simp add: orthogonal_to_def)
  have "gent S (mm A u) i (mm B v) j = 0" if ij: "i < ncols u" "j < ncols v" for i j
  proof -
    have "gent S (mm A u) i (mm B v) j
        = (\<Sum>k<ncols A. \<Sum>l<ncols B. ent u k i * ent v l j * gent S A k B l)"
      using d assms(2,3) ij by (simp add: gent_mm)
    also have "\<dots> = (\<Sum>k<ncols A. \<Sum>l<ncols B. 0)"
      by (intro sum.cong refl) (simp add: g)
    finally show ?thesis by simp
  qed
  then show ?thesis using d by (simp add: orthogonal_to_def)
qed

lemma nrows_hcat [simp]: "nrows (hcat A B) = nrows A" by (simp add: hcat_def)
lemma ncols_hcat [simp]: "ncols (hcat A B) = ncols A + ncols B" by (simp add: hcat_def)
lemma wf_hcat [simp]: "wf_mat (hcat A B)" by (simp add: hcat_def)

lemma gent_hcat_left:
  assumes "nrows A = nrows S" "nrows B = nrows S" "i < ncols A + ncols B"
  shows "gent S (hcat A B) i C j = (if i < ncols A then gent S A i C j else gent S B (i - ncols A) C j)"
  unfolding gent_def using assms
  by (auto intro!: sip_cong simp: col_def hcat_def)

lemma gent_hcat_right:
  assumes "nrows A = ncols S" "nrows B = ncols S" "j < ncols A + ncols B"
  shows "gent S C i (hcat A B) j = (if j < ncols A then gent S C i A j else gent S C i B (j - ncols A))"
  unfolding gent_def using assms
  by (auto intro!: sip_cong simp: col_def hcat_def)

lemma orthonormal_hcat:
  assumes "orthonormal S A" "orthonormal S B" "orthogonal_to S A B" "orthogonal_to S B A"
  shows "orthonormal S (hcat A B)"
proof -
  have d: "nrows A = nrows S" "nrows A = ncols S" "nrows B = nrows S" "nrows B = ncols S"
    using assms(1,2) by (simp_all add: orthonormal_def)
  have aa: "gent S A i A j = (if i = j then 1 else 0)" if "i < ncols A" "j < ncols A" for i j
    using assms(1) that by (simp add: orthonormal_def)
  have bb: "gent S B i B j = (if i = j then 1 else 0)" if "i < ncols B" "j < ncols B" for i j
    using assms(2) that by (simp add: orthonormal_def)
  have ab: "gent S A i B j = 0" if "i < ncols A" "j < ncols B" for i j
    using assms(3) that by (simp add: orthogonal_to_def)
  have ba: "gent S B i A j = 0" if "i < ncols B" "j < ncols A" for i j
    using assms(4) that by (simp add: orthogonal_to_def)
  have "gent S (hcat A B) i (hcat A B) j = (if i = j then 1 else 0)"
    if ij: "i < ncols A + ncols B" "j < ncols A + ncols B" for i j
  proof -
    have "gent S (hcat A B) i (hcat A B) j
        = (if i < ncols A then gent S A i (hcat A B) j else gent S B (i - ncols A) (hcat A B) j)"
      using d ij by (simp add: gent_hcat_left)
    also have "\<dots> = (if i < ncols A
         then (if j < ncols A then gent S A i A j else gent S A i B (j - ncols A))
         else (if j < ncols A then gent S B (i - ncols A) A j else gent S B (i - ncols A) B (j - ncols A)))"
      using d ij by (simp add: gent_hcat_right)
    also have "\<dots> = (if i = j then 1 else 0)"
    proof (cases "i < ncols A")
      case True
      show ?thesis
      proof (cases "j < ncols A")
        case True with \<open>i < ncols A\<close> show ?thesis by (simp add: aa)
      next
        case False with \<open>i < ncols A\<close> ij show ?thesis by (simp add: ab)
      qed
    next
      case False
      show ?thesis
      proof (cases "j < ncols A")
        case True with \<open>\<not> i < ncols A\<close> ij show ?thesis by (simp add: ba)
      next
        case False with \<open>\<not> i < ncols A\<close> ij show ?thesis by (auto simp: bb)
      qed
    qed
    finally show ?thesis .
  qed
  then show ?thesis using d by (simp add: orthonormal_def)
qed

lemma orthogonal_hcat_left:
  assumes "orthogonal_to S A C" "orthogonal_to S B C"
  shows "orthogonal_to S (hcat A B) C"
  using assms unfolding orthogonal_to_def
  by (auto simp: gent_hcat_left)

lemma orthogonal_hcat_right:
  assumes "orthogonal_to S C A" "orthogonal_to S C B"
  shows "orthogonal_to S C (hcat A B)"
  using assms unfolding orthogonal_to_def
  by (auto simp: gent_hcat_right)


section \<open>The steps of the selector\<close>


lemma dmet_partition_cases:
  assumes "dmet_partition L g mc dm implst = Inr (s, bathorb, imporb, mocore, mocas, moext)"
  obtains corth dm' where
    "dmet_orth L g dm = Inr (corth, s, dm')"
    "dmet_natorb L (nao_nr L (mol mc)) corth dm' implst = Inr (bathorb, imporb)"
    "dmet_blocks (ncore mc) (dmet_nbath mc implst) bathorb imporb = Inr (mocore, mocas, moext)"
  using assms unfolding dmet_partition_def Let_def
  by (auto simp: rbind_eq_Inr split: prod.splits)

lemma dmet_natorb_cases:
  assumes "dmet_natorb L nao corth dm implst = Inr (bathorb, imporb)"
  obtains dii occi ui dbb occb ub where
    "sub_block dm implst = Inr dii" "eigh L (neg_mat dii) = Inr (occi, ui)"
    "sub_block dm (notimp_of nao implst) = Inr dbb" "eigh L (neg_mat dbb) = Inr (occb, ub)"
    "take_cols corth (notimp_of nao implst) = Inr (cols_of corth (notimp_of nao implst))"
    "dot (cols_of corth (notimp_of nao implst)) ub = Inr bathorb"
    "take_cols corth implst = Inr (cols_of corth implst)"
    "dot (cols_of corth implst) ui = Inr imporb"
  using assms unfolding dmet_natorb_def Let_def
  by (auto simp: rbind_eq_Inr take_cols_eq_Inr split: prod.splits)

lemma hcat_empty_right:
  assumes "wf_mat A" "ncols B = 0"
  shows "hcat A B = A"
  by (rule mat_eqI) (simp_all add: assms hcat_def)

lemma dmet_blocks_eq_Inr:
  "dmet_blocks nc nb bathorb imporb = Inr (mocore, mocas, moext) \<longleftrightarrow>
     nrows bathorb = nrows imporb \<and>
     mocore = slice_cols bathorb None (Some (int nc)) \<and>
     mocas = hcat imporb (slice_cols bathorb (Some (int nc)) (Some (int nc + nb))) \<and>
     moext = slice_cols bathorb (Some (int nc + nb)) None"
  unfolding dmet_blocks_def Let_def
  by (auto simp: rbind_eq_Inr slice_cols_cols_of)



lemma set_notimp [simp]: "set (notimp_of nao implst) = {..<nao} - set implst"
  by (auto simp: notimp_of_def)

lemma distinct_notimp [simp]: "distinct (notimp_of nao implst)"
  by (simp add: notimp_of_def)

lemma sorted_notimp [simp]: "sorted (notimp_of nao implst)"
  by (simp add: notimp_of_def sorted_wrt_filter)

lemma length_notimp:
  assumes "distinct implst" "\<forall>i\<in>set implst. i < nao"
  shows "length (notimp_of nao implst) = nao - length implst"
proof -
  have "length (notimp_of nao implst) = card ({..<nao} - set implst)"
    using distinct_card[OF distinct_notimp, of nao implst] by simp
  also have "\<dots> = card {..<nao} - card (set implst)"
    using assms(2) by (intro card_Diff_subset) auto
  finally show ?thesis
    using assms(1) by (simp add: distinct_card)
qed

lemma take_rows_eq_Inr:
  "take_rows A idx = Inr C \<longleftrightarrow>
     idx \<noteq> [] \<and> (\<forall>i\<in>set idx. i < nrows A) \<and>
     C = mk (length idx) (ncols A) (\<lambda>i j. ent A (idx ! i) j)"
  by (force simp: take_rows_def list_ex_iff not_le)

lemma sub_block_eq_Inr:
  "sub_block A idx = Inr B \<longleftrightarrow>
     idx \<noteq> [] \<and> (\<forall>i\<in>set idx. i < nrows A \<and> i < ncols A) \<and> B = spec_sub A idx"
proof -
  have e: "cols_of (mk (length idx) (ncols A) (\<lambda>i j. ent A (idx ! i) j)) idx = spec_sub A idx"
    if "\<forall>i\<in>set idx. i < ncols A"
    unfolding cols_of_def spec_sub_def using that
    by (simp, intro mk_cong) simp
  show ?thesis
    unfolding sub_block_def
    by (auto simp: rbind_eq_Inr take_rows_eq_Inr take_cols_eq_Inr e)
qed

lemma nrows_spec_sub [simp]: "nrows (spec_sub D idx) = length idx"
  by (simp add: spec_sub_def)

lemma ncols_spec_sub [simp]: "ncols (spec_sub D idx) = length idx"
  by (simp add: spec_sub_def)

lemma nrows_neg [simp]: "nrows (neg_mat A) = nrows A"
  by (simp add: neg_mat_def)

lemma ncols_neg [simp]: "ncols (neg_mat A) = ncols A"
  by (simp add: neg_mat_def)

lemma dmet_natorb_shape:
  assumes "dmet_natorb L nao corth dm implst = Inr (bathorb, imporb)" "eigh_shape L"
  shows "ncols bathorb = length (notimp_of nao implst) \<and> ncols imporb = length implst \<and>
         nrows bathorb = nrows corth \<and> nrows imporb = nrows corth"
proof -
  from assms(1) obtain dii occi ui dbb occb ub where
    h: "sub_block dm implst = Inr dii" "eigh L (neg_mat dii) = Inr (occi, ui)"
    "sub_block dm (notimp_of nao implst) = Inr dbb" "eigh L (neg_mat dbb) = Inr (occb, ub)"
    "dot (cols_of corth (notimp_of nao implst)) ub = Inr bathorb"
    "dot (cols_of corth implst) ui = Inr imporb"
    by (rule dmet_natorb_cases)
  have "dii = spec_sub dm implst" "dbb = spec_sub dm (notimp_of nao implst)"
    using h(1,3) by (simp_all add: sub_block_eq_Inr)
  then have sq: "nrows (neg_mat dii) = ncols (neg_mat dii)" "nrows (neg_mat dbb) = ncols (neg_mat dbb)"
    and n: "nrows (neg_mat dii) = length implst" "nrows (neg_mat dbb) = length (notimp_of nao implst)"
    by simp_all
  from assms(2) sq(1) h(2) have "ncols ui = nrows (neg_mat dii)"
    unfolding eigh_shape_def by blast
  moreover from assms(2) sq(2) h(4) have "ncols ub = nrows (neg_mat dbb)"
    unfolding eigh_shape_def by blast
  ultimately show ?thesis
    using h(5,6) n by (auto simp: dot_eq_Inr)
qed

lemma clip_in_range: "k \<le> n \<Longrightarrow> clip n (int k) = k"
  by (simp add: clip_def)


lemma blocks_of_partition:
  assumes v: "valid_input (nao_nr L (mol mc)) (ncore mc) (ncas mc) implst"
    and es: "eigh_shape L"
    and p: "dmet_partition L g mc dm implst = Inr (s, bathorb, imporb, mocore, mocas, moext)"
  shows "dmet_nbath mc implst = int (ncas mc - length implst) \<and>
         mocore = cols_of bathorb [0 ..< ncore mc] \<and>
         mocas = hcat imporb (cols_of bathorb [ncore mc ..< ncore mc + (ncas mc - length implst)]) \<and>
         moext = cols_of bathorb [ncore mc + (ncas mc - length implst) ..< ncols bathorb] \<and>
         ncols mocore + ncols mocas + ncols moext = nao_nr L (mol mc) \<and>
         ncols mocas = ncas mc"
proof -
  let ?nao = "nao_nr L (mol mc)"
  from v have d: "distinct implst" "\<forall>i\<in>set implst. i < ?nao"
    and le: "length implst \<le> ncas mc" "ncore mc + ncas mc \<le> ?nao"
    by (simp_all add: valid_input_def)
  from p obtain corth dm' where
    n: "dmet_natorb L ?nao corth dm' implst = Inr (bathorb, imporb)" and
    b: "dmet_blocks (ncore mc) (dmet_nbath mc implst) bathorb imporb = Inr (mocore, mocas, moext)"
    by (rule dmet_partition_cases)
  have nb: "dmet_nbath mc implst = int (ncas mc - length implst)"
    using le(1) by (simp add: dmet_nbath_def)
  have w: "ncols bathorb = ?nao - length implst" "ncols imporb = length implst"
    using dmet_natorb_shape[OF n es] length_notimp[OF d] by simp_all
  have c1: "clip (ncols bathorb) (int (ncore mc)) = ncore mc"
    using w le by (intro clip_in_range) simp
  have "clip (ncols bathorb) (int (ncore mc + (ncas mc - length implst)))
          = ncore mc + (ncas mc - length implst)"
    using w le by (intro clip_in_range) simp
  then have c2: "clip (ncols bathorb) (int (ncore mc) + int (ncas mc - length implst))
          = ncore mc + (ncas mc - length implst)"
    by simp
  from b have blocks:
    "mocore = cols_of bathorb [0 ..< ncore mc]"
    "mocas = hcat imporb (cols_of bathorb [ncore mc ..< ncore mc + (ncas mc - length implst)])"
    "moext = cols_of bathorb [ncore mc + (ncas mc - length implst) ..< ncols bathorb]"
    unfolding nb by (simp_all add: dmet_blocks_eq_Inr slice_cols_cols_of c1 c2)
  have "ncols mocore + ncols mocas + ncols moext = ?nao" "ncols mocas = ncas mc"
    using w le unfolding blocks by simp_all
  with nb blocks show ?thesis by simp
qed



section \<open>Orthonormality through the selector\<close>


lemma ortho_mat_of_dot:
  assumes "dot (transpose_mat v) v = Inr (eye n)" "nrows v = n"
  shows "ortho_mat v"
proof -
  from assms(1) have e: "eye n = mm (transpose_mat v) v"
    by (simp add: dot_eq_Inr)
  then have c: "ncols v = n"
    by (metis ncols_mm ncols_mk eye_def)
  have "(\<Sum>k<nrows v. ent v k i * ent v k j) = (if i = j then 1 else 0)"
    if "i < ncols v" "j < ncols v" for i j
  proof -
    have "(\<Sum>k<nrows v. ent v k i * ent v k j) = ent (mm (transpose_mat v) v) i j"
      using that by (simp add: ent_mm)
    also have "\<dots> = ent (eye n) i j" by (simp add: e)
    finally show ?thesis using that c by (simp add: eye_def)
  qed
  then show ?thesis using assms(2) c by (simp add: ortho_mat_def)
qed

lemma eigh_sound_ortho:
  assumes "eigh_sound L" "nrows A = ncols A" "eigh L A = Inr (w, v)"
  shows "ortho_mat v \<and> nrows v = nrows A"
proof -
  from assms have "nrows v = nrows A" "dot (transpose_mat v) v = Inr (eye (nrows A))"
    unfolding eigh_sound_def by blast+
  then show ?thesis by (simp add: ortho_mat_of_dot)
qed

lemma eigh_sound_shape: "eigh_sound L \<Longrightarrow> eigh_shape L"
  unfolding eigh_sound_def eigh_shape_def by blast

lemma orthonormal_of_gram:
  assumes "reduce_dot (transpose_mat C) [S, C] = Inr (eye n)"
  shows "orthonormal S C \<and> ncols C = n"
proof -
  from assms have d: "nrows C = nrows S" "ncols S = nrows C"
    and e: "eye n = mm (mm (transpose_mat C) S) C"
    by (simp_all add: reduce_dot3)
  from e have c: "ncols C = n"
    by (metis ncols_mm ncols_mk eye_def)
  have "gent S C i C j = (if i = j then 1 else 0)" if "i < ncols C" "j < ncols C" for i j
  proof -
    have "gent S C i C j = ent (mm (mm (transpose_mat C) S) C) i j"
      using d that by (simp add: ent_gram)
    also have "\<dots> = ent (eye n) i j" by (simp add: e)
    finally show ?thesis using that c by (simp add: eye_def)
  qed
  then show ?thesis using d c by (simp add: orthonormal_def)
qed

lemma gram_of_orthonormal:
  assumes "orthonormal S M"
  shows "reduce_dot (transpose_mat M) [S, M] = Inr (eye (ncols M))"
proof -
  from assms have d: "nrows M = nrows S" "nrows M = ncols S"
    and g: "\<And>i j. i < ncols M \<Longrightarrow> j < ncols M \<Longrightarrow> gent S M i M j = (if i = j then 1 else 0)"
    by (simp_all add: orthonormal_def)
  have "mm (mm (transpose_mat M) S) M = eye (ncols M)"
  proof (rule mat_eqI)
    fix i j assume "i < nrows (mm (mm (transpose_mat M) S) M)" "j < ncols (mm (mm (transpose_mat M) S) M)"
    then have ij: "i < ncols M" "j < ncols M" by simp_all
    then show "ent (mm (mm (transpose_mat M) S) M) i j = ent (eye (ncols M)) i j"
      using d by (simp add: ent_gram g eye_def)
  qed (simp_all add: eye_def)
  then show ?thesis using d by (simp add: reduce_dot3)
qed

lemma canonicalize_cases:
  assumes "canonicalize L fock mo = Inr mo'"
  obtains e u where "eigh L (mm (mm (transpose_mat mo) fock) mo) = Inr (e, u)"
    "nrows mo = nrows fock" "ncols fock = nrows mo" "ncols mo = nrows u" "mo' = mm mo u"
  using assms unfolding canonicalize_def
  by (auto simp: rbind_eq_Inr reduce_dot3 dot_eq_Inr split: prod.splits)

lemma canonicalize_rot:
  assumes "canonicalize L fock mo = Inr mo'" "eigh_sound L"
  obtains u where "ortho_mat u" "nrows u = ncols mo" "mo' = mm mo u"
proof -
  from assms(1) obtain e u where h: "eigh L (mm (mm (transpose_mat mo) fock) mo) = Inr (e, u)"
    "ncols mo = nrows u" "mo' = mm mo u"
    by (rule canonicalize_cases)
  have "nrows (mm (mm (transpose_mat mo) fock) mo) = ncols (mm (mm (transpose_mat mo) fock) mo)"
    by simp
  from eigh_sound_ortho[OF assms(2) this h(1)] h(2,3) that show ?thesis by simp
qed

lemma hstack3_eq_Inr:
  "hstack [A, B, C] = Inr M \<longleftrightarrow> nrows B = nrows A \<and> nrows C = nrows A \<and> M = hcat (hcat A B) C"
  by auto

lemma orthogonal_cols_of_right:
  assumes "orthogonal_to S A B" "\<forall>j\<in>set ib. j < ncols B"
  shows "orthogonal_to S A (cols_of B ib)"
proof -
  have d: "nrows A = nrows S" "nrows B = ncols S"
    using assms(1) by (simp_all add: orthogonal_to_def)
  have "gent S A i (cols_of B ib) j = gent S A i B (ib ! j)" if "j < length ib" for i j
    unfolding gent_def using that d
    by (intro sip_cong) (simp_all add: col_def cols_of_def)
  then show ?thesis
    using assms unfolding orthogonal_to_def by auto
qed

lemma orthogonal_cols_of_left:
  assumes "orthogonal_to S A B" "\<forall>j\<in>set ia. j < ncols A"
  shows "orthogonal_to S (cols_of A ia) B"
proof -
  have d: "nrows A = nrows S" "nrows B = ncols S"
    using assms(1) by (simp_all add: orthogonal_to_def)
  have "gent S (cols_of A ia) i B j = gent S A (ia ! i) B j" if "i < length ia" for i j
    unfolding gent_def using that d
    by (intro sip_cong) (simp_all add: col_def cols_of_def)
  then show ?thesis
    using assms unfolding orthogonal_to_def by auto
qed



lemma dmet_orth_cases:
  assumes "dmet_orth L g dm = Inr (corth, s, dm')"
  obtains "orth_ao L (global_mol g) = Inr corth" "intor_symmetric L (global_mol g) = Inr s"
    "nrows corth = nrows s"
  using assms unfolding dmet_orth_def
  by (auto simp: rbind_eq_Inr dot_eq_Inr)

lemma natorb_orthonormal:
  assumes n: "dmet_natorb L nao corth dm implst = Inr (bathorb, imporb)"
    and es: "eigh_sound L"
    and oc: "orthonormal S corth" "ncols corth = nao"
    and d: "distinct implst" "\<forall>i\<in>set implst. i < nao"
  shows "orthonormal S bathorb \<and> orthonormal S imporb \<and>
         orthogonal_to S bathorb imporb \<and> orthogonal_to S imporb bathorb"
proof -
  let ?notimp = "notimp_of nao implst"
  from n obtain dii occi ui dbb occb ub where
    h: "sub_block dm implst = Inr dii" "eigh L (neg_mat dii) = Inr (occi, ui)"
    "sub_block dm ?notimp = Inr dbb" "eigh L (neg_mat dbb) = Inr (occb, ub)"
    "dot (cols_of corth ?notimp) ub = Inr bathorb"
    "dot (cols_of corth implst) ui = Inr imporb"
    by (rule dmet_natorb_cases)
  have sq: "nrows (neg_mat dii) = ncols (neg_mat dii)" "nrows (neg_mat dbb) = ncols (neg_mat dbb)"
    using h(1,3) by (simp_all add: sub_block_eq_Inr)
  have ui: "ortho_mat ui" and ub: "ortho_mat ub"
    using eigh_sound_ortho[OF es sq(1) h(2)] eigh_sound_ortho[OF es sq(2) h(4)] by simp_all
  have b: "bathorb = mm (cols_of corth ?notimp) ub" "nrows ub = ncols (cols_of corth ?notimp)"
    and i: "imporb = mm (cols_of corth implst) ui" "nrows ui = ncols (cols_of corth implst)"
    using h(5,6) by (simp_all add: dot_eq_Inr)
  have rn: "\<forall>j\<in>set ?notimp. j < ncols corth" and ri: "\<forall>j\<in>set implst. j < ncols corth"
    using d(2) oc(2) by auto
  have dj: "set ?notimp \<inter> set implst = {}" "set implst \<inter> set ?notimp = {}"
    by auto
  have "orthonormal S (cols_of corth ?notimp)" "orthonormal S (cols_of corth implst)"
    using oc(1) d(1) rn ri by (simp_all add: orthonormal_cols_of)
  moreover have "orthogonal_to S (cols_of corth ?notimp) (cols_of corth implst)"
    "orthogonal_to S (cols_of corth implst) (cols_of corth ?notimp)"
    using oc(1) dj rn ri by (simp_all add: orthogonal_cols_of_same)
  ultimately show ?thesis
    unfolding b(1) i(1) using ui ub b(2) i(2)
    by (simp add: orthonormal_rot orthogonal_rot)
qed

lemma upt_in_range: "b \<le> n \<Longrightarrow> \<forall>j\<in>set [a..<b]. j < (n::nat)"
  by auto

lemma blocks_orthonormal:
  assumes ob: "orthonormal S bathorb" and oi: "orthonormal S imporb"
    and bi: "orthogonal_to S bathorb imporb" and ib: "orthogonal_to S imporb bathorb"
    and r: "a \<le> b" "b \<le> ncols bathorb"
  shows "orthonormal S (cols_of bathorb [0..<a])"
    "orthonormal S (hcat imporb (cols_of bathorb [a..<b]))"
    "orthonormal S (cols_of bathorb [b..<ncols bathorb])"
    "orthogonal_to S (cols_of bathorb [0..<a]) (hcat imporb (cols_of bathorb [a..<b]))"
    "orthogonal_to S (hcat imporb (cols_of bathorb [a..<b])) (cols_of bathorb [0..<a])"
    "orthogonal_to S (cols_of bathorb [0..<a]) (cols_of bathorb [b..<ncols bathorb])"
    "orthogonal_to S (cols_of bathorb [b..<ncols bathorb]) (cols_of bathorb [0..<a])"
    "orthogonal_to S (hcat imporb (cols_of bathorb [a..<b])) (cols_of bathorb [b..<ncols bathorb])"
    "orthogonal_to S (cols_of bathorb [b..<ncols bathorb]) (hcat imporb (cols_of bathorb [a..<b]))"
proof -
  let ?n = "ncols bathorb"
  have r1: "\<forall>j\<in>set [0..<a]. j < ?n" and r2: "\<forall>j\<in>set [a..<b]. j < ?n"
    and r3: "\<forall>j\<in>set [b..<?n]. j < ?n"
    using r by auto
  have c: "orthonormal S (cols_of bathorb [0..<a])" "orthonormal S (cols_of bathorb [a..<b])"
    "orthonormal S (cols_of bathorb [b..<?n])"
    using ob r1 r2 r3 by (simp_all add: orthonormal_cols_of)
  have x12: "orthogonal_to S (cols_of bathorb [0..<a]) (cols_of bathorb [a..<b])"
    and x21: "orthogonal_to S (cols_of bathorb [a..<b]) (cols_of bathorb [0..<a])"
    and x13: "orthogonal_to S (cols_of bathorb [0..<a]) (cols_of bathorb [b..<?n])"
    and x31: "orthogonal_to S (cols_of bathorb [b..<?n]) (cols_of bathorb [0..<a])"
    and x23: "orthogonal_to S (cols_of bathorb [a..<b]) (cols_of bathorb [b..<?n])"
    and x32: "orthogonal_to S (cols_of bathorb [b..<?n]) (cols_of bathorb [a..<b])"
    using r by (auto intro!: orthogonal_cols_of_same[OF ob])
  have i1: "orthogonal_to S imporb (cols_of bathorb [0..<a])"
    and i2: "orthogonal_to S imporb (cols_of bathorb [a..<b])"
    and i3: "orthogonal_to S imporb (cols_of bathorb [b..<?n])"
    using ib r1 r2 r3 by (simp_all add: orthogonal_cols_of_right)
  have j1: "orthogonal_to S (cols_of bathorb [0..<a]) imporb"
    and j2: "orthogonal_to S (cols_of bathorb [a..<b]) imporb"
    and j3: "orthogonal_to S (cols_of bathorb [b..<?n]) imporb"
    using bi r1 r2 r3 by (simp_all add: orthogonal_cols_of_left)
  show "orthonormal S (cols_of bathorb [0..<a])" "orthonormal S (cols_of bathorb [b..<?n])"
    "orthogonal_to S (cols_of bathorb [0..<a]) (cols_of bathorb [b..<?n])"
    "orthogonal_to S (cols_of bathorb [b..<?n]) (cols_of bathorb [0..<a])"
    by (rule c x13 x31)+
  show "orthonormal S (hcat imporb (cols_of bathorb [a..<b]))"
    by (rule orthonormal_hcat[OF oi c(2) i2 j2])
  show "orthogonal_to S (cols_of bathorb [0..<a]) (hcat imporb (cols_of bathorb [a..<b]))"
    by (rule orthogonal_hcat_right[OF j1 x12])
  show "orthogonal_to S (hcat imporb (cols_of bathorb [a..<b])) (cols_of bathorb [0..<a])"
    by (rule orthogonal_hcat_left[OF i1 x21])
  show "orthogonal_to S (hcat imporb (cols_of bathorb [a..<b])) (cols_of bathorb [b..<?n])"
    by (rule orthogonal_hcat_left[OF i3 x23])
  show "orthogonal_to S (cols_of bathorb [b..<?n]) (hcat imporb (cols_of bathorb [a..<b]))"
    by (rule orthogonal_hcat_right[OF j3 x32])
qed



lemma dmet_cas_cases:
  assumes "dmet_cas L g mc dm implst = Inr M"
  obtains s bathorb imporb mocore mocas moext fock c' a' e' where
    "dmet_partition L g mc dm implst = Inr (s, bathorb, imporb, mocore, mocas, moext)"
    "dmet_fock s (scf mc) = Inr fock"
    "canonicalize L fock mocore = Inr c'"
    "canonicalize L fock mocas = Inr a'"
    "canonicalize L fock moext = Inr e'"
    "M = hcat (hcat c' a') e'"
  using assms unfolding dmet_cas_def
  by (auto simp: rbind_eq_Inr hstack3_eq_Inr simp del: hstack.simps split: prod.splits)


lemma bathorb_width:
  assumes v: "valid_input (nao_nr L (mol mc)) (ncore mc) (ncas mc) implst"
    and es: "eigh_shape L"
    and p: "dmet_partition L g mc dm implst = Inr (s, bathorb, imporb, mocore, mocas, moext)"
  shows "ncols bathorb = nao_nr L (mol mc) - length implst" "ncols imporb = length implst"
proof -
  from v have d: "distinct implst" "\<forall>i\<in>set implst. i < nao_nr L (mol mc)"
    by (simp_all add: valid_input_def)
  from p obtain corth dm' where
    n: "dmet_natorb L (nao_nr L (mol mc)) corth dm' implst = Inr (bathorb, imporb)"
    by (rule dmet_partition_cases)
  show "ncols bathorb = nao_nr L (mol mc) - length implst" "ncols imporb = length implst"
    using dmet_natorb_shape[OF n es] length_notimp[OF d] by simp_all
qed



lemma perm_mat_orthogonal:
  assumes "distinct p" "length p = n" "set p = {..<n}"
  shows "mm (transpose_mat (mk n n (\<lambda>i j. if i = p ! j then 1 else 0)))
            (mk n n (\<lambda>i j. if i = p ! j then 1 else 0)) = eye n"
proof (rule mat_eqI)
  let ?v = "mk n n (\<lambda>i j. if i = p ! j then (1::real) else 0)"
  fix i j assume "i < nrows (mm (transpose_mat ?v) ?v)" "j < ncols (mm (transpose_mat ?v) ?v)"
  then have ij: "i < n" "j < n" by simp_all
  have pi: "p ! i < n" using ij(1) assms(2,3) by (metis lessThan_iff nth_mem)
  have "ent (mm (transpose_mat ?v) ?v) i j
      = (\<Sum>k<n. (if k = p ! i then 1 else 0) * (if k = p ! j then 1 else 0))"
    using ij by (simp add: ent_mm)
  also have "\<dots> = (\<Sum>k<n. (if k = p ! j then 1 else 0) * (if p ! i = k then 1 else 0))"
    by (intro sum.cong refl) simp
  also have "\<dots> = (if p ! i = p ! j then 1 else 0)"
    using pi by (simp add: sum_delta_lt)
  also have "\<dots> = (if i = j then 1 else 0)"
    using assms(1,2) ij by (simp add: nth_eq_iff_index_eq)
  finally show "ent (mm (transpose_mat ?v) ?v) i j = ent (eye n) i j"
    using ij by (simp add: eye_def)
qed (simp_all add: eye_def)

lemma eigh_sound_stub: "eigh_sound stub_libs"
proof -
  have "dot (transpose_mat v) v = Inr (eye (nrows A)) \<and> nrows v = nrows A \<and> ncols v = nrows A"
    if "eigh_diag A = Inr (w, v)" for A w v
  proof -
    let ?p = "sort_key (\<lambda>i. ent A i i) [0..<nrows A]"
    from that have v: "v = mk (nrows A) (nrows A) (\<lambda>i j. if i = ?p ! j then 1 else 0)"
      by (auto simp: eigh_diag_def Let_def split: if_splits)
    have "distinct ?p" "length ?p = nrows A" "set ?p = {..<nrows A}"
      by (simp_all add: atLeast0LessThan)
    from perm_mat_orthogonal[OF this] show ?thesis
      unfolding v by (simp add: dot_mm)
  qed
  then show ?thesis
    unfolding eigh_sound_def stub_libs_def by simp
qed


section \<open>When the selector returns\<close>


lemma add_mat_same_shape:
  assumes "nrows A = nrows B" "ncols A = ncols B"
  shows "add_mat A B = Inr (spec_dm_mixed A B)"
proof -
  have "mk (nrows B) (ncols B)
          (\<lambda>i j. ent A (bidx (nrows B) i) (bidx (ncols B) j) + ent B (bidx (nrows B) i) (bidx (ncols B) j))
      = mk (nrows B) (ncols B) (\<lambda>k l. ent A k l + ent B k l)"
    by (rule mk_cong) (auto simp: bidx_def)
  then show ?thesis
    using assms by (simp add: add_mat_def bcast_ok_def bcast_def spec_dm_mixed_def)
qed

lemma nrows_dm_mixed [simp]: "nrows (spec_dm_mixed A B) = nrows A"
  by (simp add: spec_dm_mixed_def)

lemma ncols_dm_mixed [simp]: "ncols (spec_dm_mixed A B) = ncols A"
  by (simp add: spec_dm_mixed_def)

lemma dmet_orth_returns:
  assumes "orth_ao L (global_mol g) = Inr corth" "intor_symmetric L (global_mol g) = Inr S"
    and "nrows corth = nrows S"
    and "nrows dma = ncols S" "ncols dma = ncols S" "nrows dmb = ncols S" "ncols dmb = ncols S"
  shows "dmet_orth L g (dma, dmb) =
           Inr (corth, S, mm (mm (mm (transpose_mat corth) S) (spec_dm_mixed dma dmb))
                              (transpose_mat (mm (transpose_mat corth) S)))"
  using assms unfolding dmet_orth_def
  by (simp add: dot_mm add_mat_same_shape reduce_dot.simps)

lemma notimp_nonempty:
  assumes "distinct implst" "\<forall>i\<in>set implst. i < nao" "length implst < nao"
  shows "notimp_of nao implst \<noteq> []"
  using length_notimp[OF assms(1,2)] assms(3) by auto

lemma eigh_returns:
  assumes "eigh_total L" "eigh_shape L" "nrows A = ncols A"
  shows "\<exists>w v. eigh L A = Inr (w, v) \<and> nrows v = nrows A \<and> ncols v = nrows A"
  using assms unfolding eigh_total_def eigh_shape_def by blast

lemma dmet_natorb_returns:
  assumes dm: "nrows dm = nao" "ncols dm = nao" and c: "ncols corth = nao"
    and i: "implst \<noteq> []" "distinct implst" "\<forall>i\<in>set implst. i < nao" "length implst < nao"
    and e: "eigh_total L" "eigh_shape L"
  shows "\<exists>bathorb imporb. dmet_natorb L nao corth dm implst = Inr (bathorb, imporb) \<and>
           nrows bathorb = nrows corth \<and> nrows imporb = nrows corth"
proof -
  let ?notimp = "notimp_of nao implst"
  have ne: "?notimp \<noteq> []" using i(2-4) by (rule notimp_nonempty)
  have rn: "\<forall>j\<in>set ?notimp. j < nao" by simp
  have s1: "sub_block dm implst = Inr (spec_sub dm implst)"
    and s2: "sub_block dm ?notimp = Inr (spec_sub dm ?notimp)"
    using dm i(1,3) ne rn by (simp_all add: sub_block_eq_Inr)
  obtain occi ui where ui: "eigh L (neg_mat (spec_sub dm implst)) = Inr (occi, ui)"
    "nrows ui = length implst"
    using eigh_returns[OF e, of "neg_mat (spec_sub dm implst)"] by auto
  obtain occb ub where ub: "eigh L (neg_mat (spec_sub dm ?notimp)) = Inr (occb, ub)"
    "nrows ub = length ?notimp"
    using eigh_returns[OF e, of "neg_mat (spec_sub dm ?notimp)"] by auto
  have t1: "take_cols corth ?notimp = Inr (cols_of corth ?notimp)"
    and t2: "take_cols corth implst = Inr (cols_of corth implst)"
    using c i(1,3) ne rn by (simp_all add: take_cols_eq_Inr)
  show ?thesis
    unfolding dmet_natorb_def Let_def
    by (simp add: s1 s2 ui ub t1 t2 dot_mm)
qed

lemma nrows_slice_cols [simp]: "nrows (slice_cols A lo hi) = nrows A"
  by (simp add: slice_cols_cols_of)

lemma dmet_blocks_returns:
  assumes "nrows bathorb = nrows imporb"
  shows "\<exists>mocore mocas moext. dmet_blocks nc nb bathorb imporb = Inr (mocore, mocas, moext) \<and>
           nrows mocore = nrows imporb \<and> nrows mocas = nrows imporb \<and> nrows moext = nrows imporb"
  using assms by (simp add: dmet_blocks_eq_Inr)

lemma mul_vec_same:
  assumes "ncols A = length e"
  shows "\<exists>ce. mul_vec A e = Inr ce \<and> nrows ce = nrows A \<and> ncols ce = ncols A"
  using assms by (simp add: mul_vec_def bcast_ok_def bcast_def)

lemma dmet_fock_returns:
  assumes "nrows (mo_coeff mf) = nrows S" "ncols S = nrows S" "length (mo_energy mf) = ncols (mo_coeff mf)"
  shows "\<exists>F. dmet_fock S mf = Inr F \<and> nrows F = nrows S \<and> ncols F = nrows S"
proof -
  from mul_vec_same[of "mo_coeff mf" "mo_energy mf"] assms(3)
  obtain ce where ce: "mul_vec (mo_coeff mf) (mo_energy mf) = Inr ce"
    "nrows ce = nrows (mo_coeff mf)" "ncols ce = ncols (mo_coeff mf)"
    by auto
  show ?thesis
    unfolding dmet_fock_def Let_def using assms ce
    by (simp add: reduce_dot4)
qed

lemma canonicalize_returns:
  assumes "nrows mo = nrows F" "ncols F = nrows F" "eigh_total L" "eigh_shape L"
  shows "\<exists>mo'. canonicalize L F mo = Inr mo' \<and> nrows mo' = nrows mo"
proof -
  obtain e u where "eigh L (mm (mm (transpose_mat mo) F) mo) = Inr (e, u)" "nrows u = ncols mo"
    using eigh_returns[OF assms(3,4), of "mm (mm (transpose_mat mo) F) mo"] by auto
  then show ?thesis
    unfolding canonicalize_def using assms(1,2)
    by (simp add: reduce_dot3[THEN iffD2] dot_mm)
qed



lemma dmet_cas_returns:
  assumes ws: "well_shaped L g mc dm"
    and i: "implst \<noteq> []" "distinct implst" "\<forall>i\<in>set implst. i < nao_nr L (mol mc)"
           "length implst < nao_nr L (mol mc)"
    and e: "eigh_total L" "eigh_shape L"
  shows "\<exists>M. dmet_cas L g mc dm implst = Inr M"
proof -
  let ?nao = "nao_nr L (mol mc)"
  from ws obtain corth S where
    c: "orth_ao L (global_mol g) = Inr corth" "intor_symmetric L (global_mol g) = Inr S"
    and sh: "nrows S = ncols S" "nrows corth = nrows S" "ncols corth = ?nao"
    and dsh: "nrows (fst dm) = ncols S" "ncols (fst dm) = ncols S"
             "nrows (snd dm) = ncols S" "ncols (snd dm) = ncols S"
    and mf: "nrows (mo_coeff (scf mc)) = nrows S"
            "length (mo_energy (scf mc)) = ncols (mo_coeff (scf mc))"
    unfolding well_shaped_def by auto
  define dm' where "dm' = mm (mm (mm (transpose_mat corth) S) (spec_dm_mixed (fst dm) (snd dm)))
                              (transpose_mat (mm (transpose_mat corth) S))"
  have o: "dmet_orth L g dm = Inr (corth, S, dm')"
    using dmet_orth_returns[OF c sh(2) dsh] unfolding dm'_def by simp
  have "nrows dm' = ?nao" "ncols dm' = ?nao"
    unfolding dm'_def using sh by simp_all
  from dmet_natorb_returns[OF this sh(3) i e] obtain bathorb imporb where
    n: "dmet_natorb L ?nao corth dm' implst = Inr (bathorb, imporb)"
    and nr: "nrows bathorb = nrows corth" "nrows imporb = nrows corth"
    by auto
  from dmet_blocks_returns[of bathorb imporb "ncore mc" "dmet_nbath mc implst"] nr
  obtain mocore mocas moext where
    b: "dmet_blocks (ncore mc) (dmet_nbath mc implst) bathorb imporb = Inr (mocore, mocas, moext)"
    and br: "nrows mocore = nrows S" "nrows mocas = nrows S" "nrows moext = nrows S"
    using sh(2) by auto
  have p: "dmet_partition L g mc dm implst = Inr (S, bathorb, imporb, mocore, mocas, moext)"
    unfolding dmet_partition_def Let_def by (simp add: o n b)
  from dmet_fock_returns[OF mf(1) sh(1)[symmetric] mf(2)] obtain F where
    f: "dmet_fock S (scf mc) = Inr F" "nrows F = nrows S" "ncols F = nrows S"
    by auto
  from canonicalize_returns[OF _ _ e, of mocore F] br(1) f(2,3) obtain c' where
    k1: "canonicalize L F mocore = Inr c'" "nrows c' = nrows S" by auto
  from canonicalize_returns[OF _ _ e, of mocas F] br(2) f(2,3) obtain a' where
    k2: "canonicalize L F mocas = Inr a'" "nrows a' = nrows S" by auto
  from canonicalize_returns[OF _ _ e, of moext F] br(3) f(2,3) obtain e' where
    k3: "canonicalize L F moext = Inr e'" "nrows e' = nrows S" by auto
  show ?thesis
    unfolding dmet_cas_def by (simp add: p f(1) k1 k2 k3)
qed

lemma eigh_total_stub: "eigh_total stub_libs"
  by (simp add: eigh_total_def stub_libs_def eigh_diag_def Let_def)


section \<open>The steps against the wording of the specification\<close>


lemma cinv_spec:
  "mm (transpose_mat corth) S = spec_cinv corth S"
  unfolding mm_def spec_cinv_def by (simp, rule mk_cong) simp

lemma nrows_spec_cinv [simp]: "nrows (spec_cinv corth S) = ncols corth"
  by (simp add: spec_cinv_def)

lemma ncols_spec_cinv [simp]: "ncols (spec_cinv corth S) = ncols S"
  by (simp add: spec_cinv_def)

lemma triple_product_spec:
  assumes "ncols C = nrows X" "ncols X = ncols C"
  shows "mm (mm C X) (transpose_mat C) =
         mk (nrows C) (nrows C) (\<lambda>i j. \<Sum>k<nrows X. \<Sum>l<ncols X. ent C i k * ent X k l * ent C j l)"
proof (rule mat_eqI)
  fix i j assume "i < nrows (mm (mm C X) (transpose_mat C))" "j < ncols (mm (mm C X) (transpose_mat C))"
  then have ij: "i < nrows C" "j < nrows C" by simp_all
  have "ent (mm (mm C X) (transpose_mat C)) i j
      = (\<Sum>l<ncols X. (\<Sum>k<nrows X. ent C i k * ent X k l) * ent C j l)"
    using ij assms by (simp add: ent_mm)
  also have "\<dots> = (\<Sum>l<ncols X. \<Sum>k<nrows X. ent C i k * ent X k l * ent C j l)"
    by (simp add: sum_distrib_right)
  also have "\<dots> = (\<Sum>k<nrows X. \<Sum>l<ncols X. ent C i k * ent X k l * ent C j l)"
    by (rule sum.swap)
  finally show "ent (mm (mm C X) (transpose_mat C)) i j =
      ent (mk (nrows C) (nrows C) (\<lambda>i j. \<Sum>k<nrows X. \<Sum>l<ncols X. ent C i k * ent X k l * ent C j l)) i j"
    using ij by simp
qed simp_all



lemma nrows_spec_fock [simp]: "nrows (spec_fock s c e) = nrows s"
  by (simp add: spec_fock_def)

lemma ncols_spec_fock [simp]: "ncols (spec_fock s c e) = ncols s"
  by (simp add: spec_fock_def)

lemma mul_vec_same_eq:
  assumes "ncols A = length e"
  shows "mul_vec A e = Inr (mk (nrows A) (ncols A) (\<lambda>i j. ent A i j * e ! j))"
proof -
  have "mk (nrows A) (length e) (\<lambda>i j. ent A i (bidx (length e) j) * e ! bidx (length e) j)
      = mk (nrows A) (length e) (\<lambda>i j. ent A i j * e ! j)"
    by (rule mk_cong) (auto simp: bidx_def)
  then show ?thesis
    using assms by (simp add: mul_vec_def bcast_ok_def bcast_def)
qed

lemma fock_spec:
  assumes "nrows c = nrows s" "ncols s = nrows s" "length e = ncols c"
  shows "dmet_fock s \<lparr>mo_coeff = c, mo_energy = e\<rparr> = Inr (spec_fock s c e)"
proof -
  let ?ce = "mk (nrows c) (ncols c) (\<lambda>i j. ent c i j * e ! j)"
  have m: "mul_vec c e = Inr ?ce"
    using assms(3) by (simp add: mul_vec_same_eq)
  have "mm (mm (mm s ?ce) (transpose_mat c)) s = spec_fock s c e"
  proof (rule mat_eqI)
    fix i j assume "i < nrows (mm (mm (mm s ?ce) (transpose_mat c)) s)"
      "j < ncols (mm (mm (mm s ?ce) (transpose_mat c)) s)"
    then have ij: "i < nrows s" "j < ncols s" by simp_all
    have "ent (mm (mm (mm s ?ce) (transpose_mat c)) s) i j
        = (\<Sum>b<nrows c. (\<Sum>p<ncols c. (\<Sum>a<nrows c. ent s i a * (ent c a p * e ! p)) * ent c b p) * ent s b j)"
      using ij assms by (simp add: ent_mm)
    also have "\<dots> = (\<Sum>b<nrows c. \<Sum>p<ncols c. \<Sum>a<nrows c.
                          ent s i a * (ent c a p * e ! p) * ent c b p * ent s b j)"
      by (simp add: sum_distrib_right)
    also have "\<dots> = (\<Sum>p<ncols c. \<Sum>b<nrows c. \<Sum>a<nrows c.
                          ent s i a * (ent c a p * e ! p) * ent c b p * ent s b j)"
      by (rule sum.swap)
    also have "\<dots> = (\<Sum>p<ncols c. \<Sum>a<nrows c. \<Sum>b<nrows c.
                          ent s i a * (ent c a p * e ! p) * ent c b p * ent s b j)"
      by (intro sum.cong refl sum.swap)
    also have "\<dots> = (\<Sum>a<nrows c. \<Sum>p<ncols c. \<Sum>b<nrows c.
                          ent s i a * (ent c a p * e ! p) * ent c b p * ent s b j)"
      by (rule sum.swap)
    finally show "ent (mm (mm (mm s ?ce) (transpose_mat c)) s) i j = ent (spec_fock s c e) i j"
      using ij by (simp add: spec_fock_def)
  qed (simp_all add: spec_fock_def)
  then show ?thesis
    unfolding dmet_fock_def Let_def using assms m
    by (simp add: reduce_dot4)
qed

lemma block_fock_spec:
  assumes "nrows B = nrows F" "ncols F = nrows B"
  shows "mm (mm (transpose_mat B) F) B = spec_block_fock F B"
  unfolding spec_block_fock_def
  by (rule mat_eqI) (simp_all add: ent_gram assms)

lemma canonicalize_spec:
  assumes "nrows B = nrows F" "ncols F = nrows F" "eigh_shape L"
  shows "canonicalize L F B = spec_canonical L F B"
proof -
  have r: "reduce_dot (transpose_mat B) [F, B] = Inr (spec_block_fock F B)"
    using assms(1,2) by (simp add: reduce_dot3 block_fock_spec)
  have sq: "nrows (spec_block_fock F B) = ncols (spec_block_fock F B)"
    "nrows (spec_block_fock F B) = ncols B"
    by (simp_all add: spec_block_fock_def)
  show ?thesis
  proof (cases "eigh L (spec_block_fock F B)")
    case (Inl x)
    then show ?thesis
      by (simp add: canonicalize_def spec_canonical_def r)
  next
    case (Inr wu)
    obtain w u where wu: "wu = (w, u)" by (cases wu)
    from assms(3) sq Inr wu have "nrows u = ncols B"
      unfolding eigh_shape_def by metis
    with Inr wu show ?thesis
      by (simp add: canonicalize_def spec_canonical_def r dot_mm)
  qed
qed

lemma spec_canonical_nrows:
  "spec_canonical L F B = Inr B' \<Longrightarrow> nrows B' = nrows B"
  by (auto simp: spec_canonical_def split: sum.splits prod.splits)

lemma assemble_spec:
  assumes "nrows a = nrows c" "nrows e = nrows c"
  shows "hstack [c, a, e] = Inr (spec_assemble c a e)"
proof -
  have "hcat (hcat c a) e = spec_assemble c a e"
    unfolding spec_assemble_def
    by (rule mat_eqI) (auto simp: hcat_def)
  then show ?thesis using assms by simp
qed



lemma fock_spec_scf:
  assumes "nrows (mo_coeff mf) = nrows s" "ncols s = nrows s" "length (mo_energy mf) = ncols (mo_coeff mf)"
  shows "dmet_fock s mf = Inr (spec_fock s (mo_coeff mf) (mo_energy mf))"
  using fock_spec[OF assms] by (simp add: dmet_fock_def)

lemma partition_nrows:
  assumes "dmet_partition L g mc dm implst = Inr (s, bathorb, imporb, mocore, mocas, moext)"
  shows "nrows mocore = nrows s" "nrows mocas = nrows s" "nrows moext = nrows s"
proof -
  from assms obtain corth dm' where
    o: "dmet_orth L g dm = Inr (corth, s, dm')" and
    n: "dmet_natorb L (nao_nr L (mol mc)) corth dm' implst = Inr (bathorb, imporb)" and
    b: "dmet_blocks (ncore mc) (dmet_nbath mc implst) bathorb imporb = Inr (mocore, mocas, moext)"
    by (rule dmet_partition_cases)
  from o have c: "nrows corth = nrows s" by (rule dmet_orth_cases)
  from n obtain ui ub where
    "dot (cols_of corth (notimp_of (nao_nr L (mol mc)) implst)) ub = Inr bathorb"
    "dot (cols_of corth implst) ui = Inr imporb"
    by (rule dmet_natorb_cases)
  then have "nrows bathorb = nrows s" "nrows imporb = nrows s"
    using c by (auto simp: dot_eq_Inr)
  with b show "nrows mocore = nrows s" "nrows mocas = nrows s" "nrows moext = nrows s"
    by (simp_all add: dmet_blocks_eq_Inr)
qed


section \<open>Occupation numbers\<close>


lemma ent_neg: "i < nrows D \<Longrightarrow> j < ncols D \<Longrightarrow> ent (neg_mat D) i j = - ent D i j"
  by (simp add: neg_mat_def)

lemma occupation_of_eigenvector:
  assumes e: "eigh_correct (neg_mat D) w v" and k: "k < nrows D"
  shows "sip D (col v k) (col v k) = - (w ! k)"
proof -
  let ?n = "nrows D"
  from e have sq: "ncols D = ?n" and v: "nrows v = ?n" "ncols v = ?n"
    and o: "ortho_mat v"
    and eq: "\<And>i j. i < ?n \<Longrightarrow> j < ?n \<Longrightarrow>
               (\<Sum>b<?n. ent (neg_mat D) i b * ent v b j) = ent v i j * w ! j"
    unfolding eigh_correct_def by simp_all
  have inner: "(\<Sum>b<?n. ent D a b * ent v b k) = - (ent v a k * w ! k)" if a: "a < ?n" for a
  proof -
    have "(\<Sum>b<?n. ent D a b * ent v b k) = - (\<Sum>b<?n. ent (neg_mat D) a b * ent v b k)"
      unfolding sum_negf[symmetric]
      by (intro sum.cong refl) (simp add: ent_neg a sq)
    then show ?thesis using eq[OF a k] by simp
  qed
  have "sip D (col v k) (col v k) = (\<Sum>a<?n. ent v a k * (\<Sum>b<?n. ent D a b * ent v b k))"
    by (simp add: sip_def col_def sq sum_distrib_left mult.assoc)
  also have "\<dots> = (\<Sum>a<?n. ent v a k * - (ent v a k * w ! k))"
    by (intro sum.cong refl) (simp add: inner)
  also have "\<dots> = - (w ! k) * (\<Sum>a<?n. ent v a k * ent v a k)"
    by (simp add: sum_distrib_left mult_ac sum_negf)
  also have "(\<Sum>a<?n. ent v a k * ent v a k) = 1"
    using o k v unfolding ortho_mat_def by auto
  finally show ?thesis by simp
qed

lemma occupations_of_eigh:
  assumes e: "eigh_correct (neg_mat D) w v"
  shows "occupations D v = map uminus w \<and> sorted (rev (occupations D v))"
proof -
  from e have v: "ncols v = nrows D" and w: "length w = nrows D" and s: "sorted w"
    unfolding eigh_correct_def by simp_all
  have "occupations D v = map uminus w"
    unfolding occupations_def
    by (rule nth_equalityI) (simp_all add: v w occupation_of_eigenvector[OF e])
  moreover have "sorted (rev (map uminus w))"
    using s by (simp add: sorted_wrt_rev sorted_wrt_map)
  ultimately show ?thesis by simp
qed

lemma eigh_diag_correct:
  assumes d: "is_diag A" and r: "eigh_diag A = Inr (w, v)"
  shows "eigh_correct A w v"
proof -
  let ?n = "nrows A"
  let ?p = "sort_key (\<lambda>i. ent A i i) [0..<?n]"
  from r have sq: "?n = ncols A" and w: "w = map (\<lambda>i. ent A i i) ?p"
    and v: "v = mk ?n ?n (\<lambda>i j. if i = ?p ! j then 1 else 0)"
    by (auto simp: eigh_diag_def Let_def split: if_splits)
  have p: "distinct ?p" "length ?p = ?n" "set ?p = {..<?n}"
    by (simp_all add: atLeast0LessThan)
  have off: "ent A i j = 0" if "i < ?n" "j < ?n" "i \<noteq> j" for i j
  proof -
    from d have "\<forall>i\<in>{0..<?n}. \<forall>j\<in>{0..<?n}. i = j \<or> ent A i j = 0"
      unfolding is_diag_def using sq by (simp add: list_all_iff)
    with that show ?thesis
      by (metis atLeastLessThan_iff le0)
  qed
  have "dot (transpose_mat v) v = Inr (eye ?n)"
    unfolding v using perm_mat_orthogonal[OF p] by (simp add: dot_mm)
  then have o: "ortho_mat v"
    by (rule ortho_mat_of_dot) (simp add: v)
  have "sorted w"
    unfolding w by (rule sorted_sort_key)
  moreover have "(\<Sum>k<ncols A. ent A i k * ent v k j) = ent v i j * w ! j"
    if ij: "i < ?n" "j < ?n" for i j
  proof -
    have pj: "?p ! j < ?n" using ij(2) p(2,3) by (metis lessThan_iff nth_mem)
    have "(\<Sum>k<ncols A. ent A i k * ent v k j)
        = (\<Sum>k<?n. ent A i k * (if ?p ! j = k then 1 else 0))"
      unfolding sq[symmetric] v using ij by (intro sum.cong refl) auto
    also have "\<dots> = ent A i (?p ! j)"
      using pj by (simp add: sum_delta_lt)
    also have "\<dots> = ent v i j * w ! j"
      using ij pj off[of i "?p ! j"] p(2) by (auto simp: v w)
    finally show ?thesis .
  qed
  ultimately show ?thesis
    unfolding eigh_correct_def using sq o p(2) by (simp add: v w)
qed




subsection \<open>Runs of the script\<close>

text \<open>
  Once an exception is raised nothing more happens; a run binds only the names its steps
  bind, and enters the selector only at a \<open>Sel\<close> step. So a run stops with an exception at
  the first lookup of a name that neither the state nor the steps before it bind.
\<close>

lemma run_Nil [simp]: "run ok [] st = st"
  by (simp add: run_def)

lemma run_Cons [simp]: "run ok (s # ss) st = run ok ss (exec_step ok s st)"
  by (simp add: run_def)

lemma run_append [simp]: "run ok (xs @ ys) st = run ok ys (run ok xs st)"
  by (simp add: run_def)

lemma exec_raised [simp]: "raised st \<noteq> None \<Longrightarrow> exec_step ok s st = st"
  by simp

lemma run_raised: "raised st \<noteq> None \<Longrightarrow> run ok ss st = st"
  by (induction ss) simp_all

declare exec_step.simps [simp del]

lemma exec_step_bound:
  "set (bound (exec_step ok s st)) \<subseteq> set (bound st) \<union> set (binds_of [s])"
  by (cases s) (auto simp: exec_step.simps binds_of_def)

lemma binds_of_Cons: "binds_of (s # ss) = binds_of [s] @ binds_of ss"
  by (simp add: binds_of_def)

lemma run_bound: "set (bound (run ok ss st)) \<subseteq> set (bound st) \<union> set (binds_of ss)"
proof (induction ss arbitrary: st)
  case Nil
  then show ?case by simp
next
  case (Cons s ss)
  have "set (bound (run ok (s # ss) st)) \<subseteq> set (bound (exec_step ok s st)) \<union> set (binds_of ss)"
    using Cons.IH by simp
  also have "\<dots> \<subseteq> set (bound st) \<union> set (binds_of [s]) \<union> set (binds_of ss)"
    using exec_step_bound[of ok s st] by auto
  finally show ?case
    by (subst binds_of_Cons) auto
qed

lemma exec_step_sel:
  "s \<noteq> Sel \<Longrightarrow> sel_calls (exec_step ok s st) = sel_calls st"
  by (cases s) (auto simp: exec_step.simps)

lemma run_sel: "\<not> enters_selector ss \<Longrightarrow> sel_calls (run ok ss st) = sel_calls st"
proof (induction ss arbitrary: st)
  case Nil
  then show ?case by simp
next
  case (Cons s ss)
  then have "s \<noteq> Sel" "\<not> enters_selector ss"
    by (auto simp: enters_selector_def)
  with Cons.IH show ?case
    by (simp add: exec_step_sel)
qed

lemma run_fails_at_read:
  assumes "x \<notin> set (bound st)" "x \<notin> set (binds_of pre)" "\<not> enters_selector pre"
  shows "raised st = None \<longrightarrow> raised (run ok (pre @ Read x # post) st) \<noteq> None"
    and "sel_calls (run ok (pre @ Read x # post) st) = sel_calls st"
proof -
  let ?m = "run ok pre st"
  have nb: "x \<notin> set (bound ?m)"
    using run_bound[of ok pre st] assms(1,2) by auto
  have sc: "sel_calls ?m = sel_calls st"
    using assms(3) by (rule run_sel)
  have r: "raised (exec_step ok (Read x) ?m) \<noteq> None"
    using nb by (cases "raised ?m") (simp_all add: exec_step.simps)
  have s: "sel_calls (exec_step ok (Read x) ?m) = sel_calls ?m"
    by (rule exec_step_sel) simp
  show "raised st = None \<longrightarrow> raised (run ok (pre @ Read x # post) st) \<noteq> None"
    using r by (simp add: run_raised)
  show "sel_calls (run ok (pre @ Read x # post) st) = sel_calls st"
    using r s sc by (simp add: run_raised)
qed

lemma exec_step_name_error:
  assumes "\<forall>f. ok f" "raised st = None \<or> (\<exists>x. raised st = Some (NameError x))"
  shows "raised (exec_step ok s st) = None \<or> (\<exists>x. raised (exec_step ok s st) = Some (NameError x))"
  using assms by (cases s) (auto simp: exec_step.simps)

lemma run_name_error:
  assumes "\<forall>f. ok f" "raised st = None \<or> (\<exists>x. raised st = Some (NameError x))"
  shows "raised (run ok ss st) = None \<or> (\<exists>x. raised (run ok ss st) = Some (NameError x))"
  using assms(2)
proof (induction ss arbitrary: st)
  case Nil
  then show ?case by simp
next
  case (Cons s ss)
  from exec_step_name_error[OF assms(1) Cons.prems] Cons.IH show ?case
    by simp
qed

lemma split_at_read:
  "Read x \<in> set ss \<Longrightarrow>
     ss = takeWhile (\<lambda>s. s \<noteq> Read x) ss @ Read x # tl (dropWhile (\<lambda>s. s \<noteq> Read x) ss)"
proof (induction ss)
  case Nil
  then show ?case by simp
next
  case (Cons s ss)
  then show ?case by (cases "s = Read x") auto
qed

lemma run_fails_at_first_read:
  assumes "Read x \<in> set ss" "x \<notin> set (bound st)"
    "x \<notin> set (binds_of (takeWhile (\<lambda>s. s \<noteq> Read x) ss))"
    "\<not> enters_selector (takeWhile (\<lambda>s. s \<noteq> Read x) ss)"
    "raised st = None"
  shows "raised (run ok ss st) \<noteq> None \<and> sel_calls (run ok ss st) = sel_calls st"
proof -
  let ?pre = "takeWhile (\<lambda>s. s \<noteq> Read x) ss"
  let ?post = "tl (dropWhile (\<lambda>s. s \<noteq> Read x) ss)"
  have e: "ss = ?pre @ Read x # ?post"
    using assms(1) by (rule split_at_read)
  from run_fails_at_read[OF assms(2,3,4), of ok ?post] assms(5)
  have "raised (run ok (?pre @ Read x # ?post) st) \<noteq> None \<and>
        sel_calls (run ok (?pre @ Read x # ?post) st) = sel_calls st"
    by blast
  with e show ?thesis by simp
qed

lemma triplet_idx3d:
  "Read ''idx3d'' \<in> set (steps_of triplet_branch) \<and>
   ''idx3d'' \<notin> set (binds_of (takeWhile (\<lambda>s. s \<noteq> Read ''idx3d'') (steps_of triplet_branch))) \<and>
   \<not> enters_selector (takeWhile (\<lambda>s. s \<noteq> Read ''idx3d'') (steps_of triplet_branch))"
  by code_simp

lemma script_m:
  "Read ''m'' \<in> set (steps_of script) \<and>
   ''m'' \<notin> set (binds_of (takeWhile (\<lambda>s. s \<noteq> Read ''m'') (steps_of script))) \<and>
   \<not> enters_selector (takeWhile (\<lambda>s. s \<noteq> Read ''m'') (steps_of script))"
  by code_simp

lemma never_bound:
  "''idx3d'' \<notin> set (binds_of (steps_of script)) \<and> ''m'' \<notin> set (binds_of (steps_of script))"
  by code_simp
section \<open>The claims\<close>

subsection \<open>C7: no bath orbital when the impurity fills the active space\<close>

text \<open>
  C7. When the number of impurity indices equals \<open>ncas\<close>, the bath count \<open>nbath\<close> is 0 and
  the active block before the canonicalisation is \<open>imporb\<close> itself: no bath column is
  appended. This holds for whatever the selector computes up to line 64, valid sizes or
  not.
\<close>

theorem no_bath_active_is_imporb:
  assumes "length implst = ncas mc"
    and "dmet_partition L g mc dm implst = Inr (s, bathorb, imporb, mocore, mocas, moext)"
  shows "dmet_nbath mc implst = 0 \<and> mocas = imporb"
proof -
  from assms(2) obtain corth dm' where
    n: "dmet_natorb L (nao_nr L (mol mc)) corth dm' implst = Inr (bathorb, imporb)" and
    b: "dmet_blocks (ncore mc) (dmet_nbath mc implst) bathorb imporb = Inr (mocore, mocas, moext)"
    by (rule dmet_partition_cases)
  from n obtain ui where "dot (cols_of corth implst) ui = Inr imporb"
    by (rule dmet_natorb_cases)
  then have wf: "wf_mat imporb"
    by (auto simp: dot_eq_Inr)
  have nb: "dmet_nbath mc implst = 0"
    using assms(1) by (simp add: dmet_nbath_def)
  from b have "mocas = hcat imporb (slice_cols bathorb (Some (int (ncore mc))) (Some (int (ncore mc))))"
    unfolding nb by (simp add: dmet_blocks_eq_Inr)
  moreover have "ncols (slice_cols bathorb (Some (int (ncore mc))) (Some (int (ncore mc)))) = 0"
    by (simp add: slice_cols_cols_of)
  ultimately show ?thesis
    using nb wf by (simp add: hcat_empty_right)
qed

lemma ex_partition_no_bath:
  "dmet_partition stub_libs ex_g (ex_mc\<lparr>ncas := 1\<rparr>) ex_dm [1] =
     Inr (eye 4,
          Mat 4 3 [[0, 0, 1], [0, 0, 0], [1, 0, 0], [0, 1, 0]],
          Mat 4 1 [[0], [1], [0], [0]],
          Mat 4 1 [[0], [0], [1], [0]],
          Mat 4 1 [[0], [1], [0], [0]],
          Mat 4 2 [[0, 1], [0, 0], [0, 0], [1, 0]])"
  by code_simp

theorem no_bath_active_is_imporb_witness:
  "length [1::nat] = ncas (ex_mc\<lparr>ncas := 1\<rparr>) \<and>
   (case dmet_partition stub_libs ex_g (ex_mc\<lparr>ncas := 1\<rparr>) ex_dm [1] of
      Inl x \<Rightarrow> False
    | Inr (s, bathorb, imporb, mocore, mocas, moext) \<Rightarrow>
        dmet_nbath (ex_mc\<lparr>ncas := 1\<rparr>) [1] = 0 \<and> mocas = imporb)"
proof -
  have len: "length [1::nat] = ncas (ex_mc\<lparr>ncas := 1\<rparr>)"
    by simp
  from no_bath_active_is_imporb [OF len ex_partition_no_bath] len
  show ?thesis
    unfolding ex_partition_no_bath by simp
qed

subsection \<open>C1: the three blocks partition the orbitals\<close>

text \<open>
  C1. For every valid input (distinct impurity indices below \<open>nao\<close>, \<open>nimp \<le> ncas\<close>,
  \<open>ncore + ncas \<le> nao\<close>) on which lines 37 to 64 return, with an eigensolver that returns
  eigenvectors of the shape of its argument: \<open>nbath = ncas - nimp\<close>, the core block is
  \<open>bathorb[:, 0:ncore]\<close>, the active block is \<open>imporb\<close> followed by
  \<open>bathorb[:, ncore:ncore+nbath]\<close>, the external block is \<open>bathorb[:, ncore+nbath:]\<close>, the
  three widths add up to \<open>nao\<close> and the active block has \<open>ncas\<close> columns.
\<close>

theorem partition_complete:
  assumes v: "valid_input (nao_nr L (mol mc)) (ncore mc) (ncas mc) implst"
    and es: "eigh_shape L"
    and p: "dmet_partition L g mc dm implst = Inr (s, bathorb, imporb, mocore, mocas, moext)"
  shows "dmet_nbath mc implst = int (ncas mc - length implst) \<and>
         mocore = cols_of bathorb [0 ..< ncore mc] \<and>
         mocas = hcat imporb (cols_of bathorb [ncore mc ..< ncore mc + (ncas mc - length implst)]) \<and>
         moext = cols_of bathorb [ncore mc + (ncas mc - length implst) ..< ncols bathorb] \<and>
         ncols mocore + ncols mocas + ncols moext = nao_nr L (mol mc) \<and>
         ncols mocas = ncas mc"
  using v es p by (rule blocks_of_partition)

lemma eigh_shape_stub: "eigh_shape stub_libs"
  by (auto simp: eigh_shape_def stub_libs_def eigh_diag_def Let_def split: if_splits)

lemma ex_partition:
  "dmet_partition stub_libs ex_g ex_mc ex_dm [1] =
     Inr (eye 4,
          Mat 4 3 [[0, 0, 1], [0, 0, 0], [1, 0, 0], [0, 1, 0]],
          Mat 4 1 [[0], [1], [0], [0]],
          Mat 4 1 [[0], [0], [1], [0]],
          Mat 4 2 [[0, 0], [1, 0], [0, 0], [0, 1]],
          Mat 4 1 [[1], [0], [0], [0]])"
  by code_simp

lemma ex_valid: "valid_input (nao_nr stub_libs (mol ex_mc)) (ncore ex_mc) (ncas ex_mc) [1]"
  by (simp add: valid_input_def stub_libs_def ex_mc_def ex_mol_def)

theorem partition_complete_witness:
  "valid_input (nao_nr stub_libs (mol ex_mc)) (ncore ex_mc) (ncas ex_mc) [1] \<and>
   eigh_shape stub_libs \<and>
   (case dmet_partition stub_libs ex_g ex_mc ex_dm [1] of
      Inl x \<Rightarrow> False
    | Inr (s, bathorb, imporb, mocore, mocas, moext) \<Rightarrow>
        dmet_nbath ex_mc [1] = 1 \<and>
        mocore = cols_of bathorb [0 ..< 1] \<and>
        mocas = hcat imporb (cols_of bathorb [1 ..< 2]) \<and>
        moext = cols_of bathorb [2 ..< 3] \<and>
        ncols mocore + ncols mocas + ncols moext = 4 \<and> ncols mocas = 2)"
proof -
  have n: "nao_nr stub_libs (mol ex_mc) = 4" "ncore ex_mc = 1" "ncas ex_mc = 2"
    by (simp_all add: stub_libs_def ex_mc_def ex_mol_def)
  have u: "[0..<ncore ex_mc] = [0 ..< 1]"
    "[ncore ex_mc..<ncore ex_mc + (ncas ex_mc - length [1::nat])] = [1 ..< 2]"
    "[ncore ex_mc + (ncas ex_mc - length [1::nat])..<ncols (Mat 4 3 [[0, 0, 1], [0, 0, 0], [1, 0, 0], [0, 1, 0]])]
       = [2 ..< 3]"
    "int (ncas ex_mc - length [1::nat]) = 1"
    by (simp_all add: n upt_rec)
  from partition_complete [OF ex_valid eigh_shape_stub ex_partition]
  have "dmet_nbath ex_mc [1] = 1 \<and>
        Mat 4 1 [[0], [0], [1], [0]] = cols_of (Mat 4 3 [[0, 0, 1], [0, 0, 0], [1, 0, 0], [0, 1, 0]]) [0 ..< 1] \<and>
        Mat 4 2 [[0, 0], [1, 0], [0, 0], [0, 1]] =
          hcat (Mat 4 1 [[0], [1], [0], [0]])
               (cols_of (Mat 4 3 [[0, 0, 1], [0, 0, 0], [1, 0, 0], [0, 1, 0]]) [1 ..< 2]) \<and>
        Mat 4 1 [[1], [0], [0], [0]] = cols_of (Mat 4 3 [[0, 0, 1], [0, 0, 0], [1, 0, 0], [0, 1, 0]]) [2 ..< 3]"
    unfolding u by blast
  with ex_valid eigh_shape_stub show ?thesis
    unfolding ex_partition by simp
qed

subsection \<open>C5: the returned orbitals are orthonormal under the overlap\<close>

text \<open>
  C5. For every valid input in which \<open>orth_transform\<^sup>T S orth_transform = 1\<close>, with an
  eigensolver whose eigenvectors are orthonormal, the matrix \<open>M\<close> that \<open>dmet_cas\<close> returns
  satisfies \<open>M\<^sup>T S M = 1\<close>. The arithmetic of the model is exact, so the identity holds
  exactly. \<open>S\<close> need not be symmetric or positive definite for this.
\<close>

theorem output_orthonormal:
  assumes v: "valid_input (nao_nr L (mol mc)) (ncore mc) (ncas mc) implst"
    and c: "orth_ao L (global_mol g) = Inr corth"
    and s: "intor_symmetric L (global_mol g) = Inr S"
    and o: "reduce_dot (transpose_mat corth) [S, corth] = Inr (eye (nao_nr L (mol mc)))"
    and es: "eigh_sound L"
    and r: "dmet_cas L g mc dm implst = Inr M"
  shows "reduce_dot (transpose_mat M) [S, M] = Inr (eye (nao_nr L (mol mc)))"
proof -
  let ?nao = "nao_nr L (mol mc)"
  from r obtain s' bathorb imporb mocore mocas moext fock c' a' e' where
    p: "dmet_partition L g mc dm implst = Inr (s', bathorb, imporb, mocore, mocas, moext)" and
    k: "canonicalize L fock mocore = Inr c'" "canonicalize L fock mocas = Inr a'"
       "canonicalize L fock moext = Inr e'" and
    M: "M = hcat (hcat c' a') e'"
    by (rule dmet_cas_cases)
  from p obtain corth' dm' where
    q: "dmet_orth L g dm = Inr (corth', s', dm')" and
    n: "dmet_natorb L ?nao corth' dm' implst = Inr (bathorb, imporb)"
    by (rule dmet_partition_cases)
  from q c s have [simp]: "corth' = corth" "s' = S"
    by (auto elim!: dmet_orth_cases)
  from v have d: "distinct implst" "\<forall>i\<in>set implst. i < ?nao"
    and le: "length implst \<le> ncas mc" "ncore mc + ncas mc \<le> ?nao"
    by (simp_all add: valid_input_def)
  from orthonormal_of_gram[OF o] have oc: "orthonormal S corth" "ncols corth = ?nao"
    by simp_all
  from natorb_orthonormal[OF n[simplified] es oc d]
  have ob: "orthonormal S bathorb" and oi: "orthonormal S imporb"
    and bi: "orthogonal_to S bathorb imporb" and ib: "orthogonal_to S imporb bathorb"
    by simp_all
  let ?a = "ncore mc" and ?b = "ncore mc + (ncas mc - length implst)"
  from blocks_of_partition[OF v eigh_sound_shape[OF es] p]
  have blk: "mocore = cols_of bathorb [0..<?a]"
    "mocas = hcat imporb (cols_of bathorb [?a..<?b])"
    "moext = cols_of bathorb [?b..<ncols bathorb]"
    and w: "ncols mocore + ncols mocas + ncols moext = ?nao"
    by blast+
  have "?b \<le> ncols bathorb"
    using bathorb_width(1)[OF v eigh_sound_shape[OF es] p] le by simp
  from blocks_orthonormal[OF ob oi bi ib _ this, of ?a]
  have o1: "orthonormal S mocore" and o2: "orthonormal S mocas" and o3: "orthonormal S moext"
    and x12: "orthogonal_to S mocore mocas" and x21: "orthogonal_to S mocas mocore"
    and x13: "orthogonal_to S mocore moext" and x31: "orthogonal_to S moext mocore"
    and x23: "orthogonal_to S mocas moext" and x32: "orthogonal_to S moext mocas"
    unfolding blk by simp_all
  from k(1) es obtain u1 where u1: "ortho_mat u1" "nrows u1 = ncols mocore" "c' = mm mocore u1"
    by (rule canonicalize_rot)
  from k(2) es obtain u2 where u2: "ortho_mat u2" "nrows u2 = ncols mocas" "a' = mm mocas u2"
    by (rule canonicalize_rot)
  from k(3) es obtain u3 where u3: "ortho_mat u3" "nrows u3 = ncols moext" "e' = mm moext u3"
    by (rule canonicalize_rot)
  have n1: "orthonormal S c'" and n2: "orthonormal S a'" and n3: "orthonormal S e'"
    unfolding u1(3) u2(3) u3(3)
    using o1 o2 o3 u1 u2 u3 by (simp_all add: orthonormal_rot)
  have y12: "orthogonal_to S c' a'" and y21: "orthogonal_to S a' c'"
    and y13: "orthogonal_to S c' e'" and y31: "orthogonal_to S e' c'"
    and y23: "orthogonal_to S a' e'" and y32: "orthogonal_to S e' a'"
    unfolding u1(3) u2(3) u3(3)
    using x12 x21 x13 x31 x23 x32 u1(2) u2(2) u3(2) by (simp_all add: orthogonal_rot)
  have "orthonormal S (hcat c' a')"
    by (rule orthonormal_hcat[OF n1 n2 y12 y21])
  moreover have "orthogonal_to S (hcat c' a') e'"
    by (rule orthogonal_hcat_left[OF y13 y23])
  moreover have "orthogonal_to S e' (hcat c' a')"
    by (rule orthogonal_hcat_right[OF y31 y32])
  ultimately have oM: "orthonormal S M"
    unfolding M using n3 by (simp add: orthonormal_hcat)
  have uc: "ncols u1 = ncols mocore" "ncols u2 = ncols mocas" "ncols u3 = ncols moext"
    using u1 u2 u3 by (simp_all add: ortho_mat_def)
  have "ncols M = ?nao"
    unfolding M u1(3) u2(3) u3(3) using w uc by simp
  with gram_of_orthonormal[OF oM] show ?thesis by simp
qed


lemma ex2_cas:
  "dmet_cas stub_libs ex_g2 ex_mc ex_dm [1] =
     Inr (Mat 4 4 [[0, 0, 0, 1/2], [0, 0, 1, 0], [1, 0, 0, 0], [0, 1, 0, 0]])"
  by code_simp

lemma ex2_gram:
  "reduce_dot (transpose_mat (diag_mat [1/2, 1, 1, 1])) [diag_mat [4, 1, 1, 1], diag_mat [1/2, 1, 1, 1]]
     = Inr (eye 4)"
  by code_simp

theorem output_orthonormal_witness:
  "valid_input (nao_nr stub_libs (mol ex_mc)) (ncore ex_mc) (ncas ex_mc) [1] \<and>
   orth_ao stub_libs (global_mol ex_g2) = Inr (diag_mat [1/2, 1, 1, 1]) \<and>
   intor_symmetric stub_libs (global_mol ex_g2) = Inr (diag_mat [4, 1, 1, 1]) \<and>
   reduce_dot (transpose_mat (diag_mat [1/2, 1, 1, 1])) [diag_mat [4, 1, 1, 1], diag_mat [1/2, 1, 1, 1]]
     = Inr (eye 4) \<and>
   eigh_sound stub_libs \<and>
   dmet_cas stub_libs ex_g2 ex_mc ex_dm [1]
     = Inr (Mat 4 4 [[0, 0, 0, 1/2], [0, 0, 1, 0], [1, 0, 0, 0], [0, 1, 0, 0]]) \<and>
   reduce_dot (transpose_mat (Mat 4 4 [[0, 0, 0, 1/2], [0, 0, 1, 0], [1, 0, 0, 0], [0, 1, 0, 0]]))
     [diag_mat [4, 1, 1, 1], Mat 4 4 [[0, 0, 0, 1/2], [0, 0, 1, 0], [1, 0, 0, 0], [0, 1, 0, 0]]]
     = Inr (eye 4)"
proof -
  have n: "nao_nr stub_libs (mol ex_mc) = 4"
    by (simp add: stub_libs_def ex_mc_def ex_mol_def)
  have c: "orth_ao stub_libs (global_mol ex_g2) = Inr (diag_mat [1/2, 1, 1, 1])"
    and s: "intor_symmetric stub_libs (global_mol ex_g2) = Inr (diag_mat [4, 1, 1, 1])"
    by (simp_all add: stub_libs_def ex_g2_def ex_mol2_def)
  have o: "reduce_dot (transpose_mat (diag_mat [1/2, 1, 1, 1])) [diag_mat [4, 1, 1, 1], diag_mat [1/2, 1, 1, 1]]
     = Inr (eye (nao_nr stub_libs (mol ex_mc)))"
    unfolding n by (rule ex2_gram)
  from output_orthonormal [OF ex_valid c s o eigh_sound_stub ex2_cas]
  have "reduce_dot (transpose_mat (Mat 4 4 [[0, 0, 0, 1/2], [0, 0, 1, 0], [1, 0, 0, 0], [0, 1, 0, 0]]))
     [diag_mat [4, 1, 1, 1], Mat 4 4 [[0, 0, 0, 1/2], [0, 0, 1, 0], [1, 0, 0, 0], [0, 1, 0, 0]]]
     = Inr (eye 4)"
    unfolding n .
  with ex_valid c s ex2_gram eigh_sound_stub ex2_cas show ?thesis
    by blast
qed

subsection \<open>C8: more impurity indices than active orbitals\<close>

text \<open>
  C8 says that the selector raises an InvalidPartition error when \<open>nimp > ncas\<close>. The
  function has no such check, and no check of any precondition: with \<open>ncas = 1\<close> and
  \<open>implst = [0, 1]\<close> on four orbitals and one core orbital, \<open>nbath = -1\<close>, the slice
  \<open>bathorb[:, 1:0]\<close> is empty, \<open>bathorb[:, 0:]\<close> is all of \<open>bathorb\<close>, and a matrix of five
  columns is returned.
\<close>

theorem negative_bath_counterexample:
  "ncas (ex_mc\<lparr>ncas := 1\<rparr>) = 1 \<and> length [0, 1 :: nat] = 2 \<and>
   dmet_cas stub_libs ex_g (ex_mc\<lparr>ncas := 1\<rparr>) ex_dm [0, 1] =
     Inr (Mat 4 5 [[0, 1, 0, 0, 0], [0, 0, 1, 0, 0], [1, 0, 0, 1, 0], [0, 0, 0, 0, 1]])"
  by code_simp

text \<open>
  C8 as amended. When \<open>nimp > ncas\<close>, on arrays of the shapes of the data model, with
  distinct impurity indices below \<open>nao\<close> that leave at least one orbital out, and an
  eigensolver that returns eigenvectors of the shape of its argument: \<open>nbath\<close> is negative
  and the selector raises nothing; it returns a matrix.
\<close>

theorem negative_bath_returns:
  assumes "ncas mc < length implst"
    and "well_shaped L g mc dm"
    and "distinct implst" "\<forall>i\<in>set implst. i < nao_nr L (mol mc)"
        "length implst < nao_nr L (mol mc)"
    and "eigh_total L" "eigh_shape L"
  shows "dmet_nbath mc implst < 0 \<and> (\<exists>M. dmet_cas L g mc dm implst = Inr M)"
proof -
  from assms(1) have "implst \<noteq> []" by auto
  from dmet_cas_returns[OF assms(2) this assms(3-7)] assms(1) show ?thesis
    by (simp add: dmet_nbath_def)
qed

lemma ex_well_shaped: "well_shaped stub_libs ex_g (ex_mc\<lparr>ncas := 1\<rparr>) ex_dm"
  unfolding well_shaped_def
  by (rule exI[of _ "eye 4"], rule exI[of _ "eye 4"]) code_simp


theorem negative_bath_returns_witness:
  "ncas (ex_mc\<lparr>ncas := 1\<rparr>) < length [0, 1 :: nat] \<and>
   well_shaped stub_libs ex_g (ex_mc\<lparr>ncas := 1\<rparr>) ex_dm \<and>
   distinct [0, 1 :: nat] \<and> length [0, 1 :: nat] < nao_nr stub_libs (mol (ex_mc\<lparr>ncas := 1\<rparr>)) \<and>
   eigh_total stub_libs \<and> eigh_shape stub_libs \<and>
   dmet_nbath (ex_mc\<lparr>ncas := 1\<rparr>) [0, 1] < 0 \<and>
   (\<exists>M. dmet_cas stub_libs ex_g (ex_mc\<lparr>ncas := 1\<rparr>) ex_dm [0, 1] = Inr M)"
proof -
  have h: "ncas (ex_mc\<lparr>ncas := 1\<rparr>) < length [0, 1 :: nat]" "distinct [0, 1 :: nat]"
    "\<forall>i\<in>set [0, 1 :: nat]. i < nao_nr stub_libs (mol (ex_mc\<lparr>ncas := 1\<rparr>))"
    "length [0, 1 :: nat] < nao_nr stub_libs (mol (ex_mc\<lparr>ncas := 1\<rparr>))"
    by (simp_all add: stub_libs_def ex_mc_def ex_mol_def)
  from negative_bath_returns [OF h(1) ex_well_shaped h(2,3,4) eigh_total_stub eigh_shape_stub]
    h(1,2,4) ex_well_shaped eigh_total_stub eigh_shape_stub
  show ?thesis by blast
qed

subsection \<open>C6: the selector as a function of its arguments\<close>

text \<open>
  C6 says that the output is a function of the explicit inputs alone, with no dependence on
  state outside the argument list. \<open>dmet_cas(mc, dm, implst)\<close> reads the module-level
  variable \<open>mol\<close>: with the same \<open>mc\<close>, \<open>dm\<close> and \<open>implst\<close>, and a global \<open>mol\<close> of overlap
  \<open>diag(4, 1, 1, 1)\<close> in place of the identity, the fourth column of the result changes
  from \<open>(1, 0, 0, 0)\<close> to \<open>(1/2, 0, 0, 0)\<close>.
\<close>

theorem global_mol_counterexample:
  "dmet_cas stub_libs ex_g ex_mc ex_dm [1] =
     Inr (Mat 4 4 [[0, 0, 0, 1], [0, 0, 1, 0], [1, 0, 0, 0], [0, 1, 0, 0]]) \<and>
   dmet_cas stub_libs ex_g2 ex_mc ex_dm [1] =
     Inr (Mat 4 4 [[0, 0, 0, 1/2], [0, 0, 1, 0], [1, 0, 0, 0], [0, 1, 0, 0]])"
  by code_simp

text \<open>
  C6 as amended. Two calls with the same arguments return the same result whenever the
  library routines return the same in both calls (\<open>nao_nr()\<close> gives the same number and
  the eigensolver is the same function) and the transform and the overlap computed from the
  module-level \<open>mol\<close> are the same in both calls. The libraries and the global state of the
  two calls are separate here, and that the libraries behave alike in both is a hypothesis:
  the output depends on what lies outside the argument list only through these results.
\<close>

theorem same_arrays_same_output:
  assumes "orth_ao L' (global_mol g') = orth_ao L (global_mol g)"
    and "intor_symmetric L' (global_mol g') = intor_symmetric L (global_mol g)"
    and "nao_nr L' (mol mc) = nao_nr L (mol mc)"
    and "eigh L' = eigh L"
  shows "dmet_cas L' g' mc dm implst = dmet_cas L g mc dm implst"
  using assms
  by (simp add: dmet_cas_def dmet_partition_def dmet_orth_def dmet_natorb_def canonicalize_def)

text \<open>
  Two library records and two global states that differ (in \<open>spin\<close> and in the number of
  orbitals of the global \<open>mol\<close>) and agree on the four results.
\<close>

theorem same_arrays_same_output_witness:
  "orth_ao (stub_libs\<lparr>nao_nr := \<lambda>m. 4\<rparr>) (global_mol (ex_g\<lparr>global_mol := ex_mol\<lparr>spin := 0, stub_nao := 7\<rparr>\<rparr>))
     = orth_ao stub_libs (global_mol ex_g) \<and>
   intor_symmetric (stub_libs\<lparr>nao_nr := \<lambda>m. 4\<rparr>) (global_mol (ex_g\<lparr>global_mol := ex_mol\<lparr>spin := 0, stub_nao := 7\<rparr>\<rparr>))
     = intor_symmetric stub_libs (global_mol ex_g) \<and>
   nao_nr (stub_libs\<lparr>nao_nr := \<lambda>m. 4\<rparr>) (mol ex_mc) = nao_nr stub_libs (mol ex_mc) \<and>
   eigh (stub_libs\<lparr>nao_nr := \<lambda>m. 4\<rparr>) = eigh stub_libs \<and>
   ex_g\<lparr>global_mol := ex_mol\<lparr>spin := 0, stub_nao := 7\<rparr>\<rparr> \<noteq> ex_g \<and>
   dmet_cas (stub_libs\<lparr>nao_nr := \<lambda>m. 4\<rparr>) (ex_g\<lparr>global_mol := ex_mol\<lparr>spin := 0, stub_nao := 7\<rparr>\<rparr>) ex_mc ex_dm [1]
     = dmet_cas stub_libs ex_g ex_mc ex_dm [1]"
proof -
  let ?L = "stub_libs\<lparr>nao_nr := \<lambda>m. 4\<rparr>"
  let ?g = "ex_g\<lparr>global_mol := ex_mol\<lparr>spin := 0, stub_nao := 7\<rparr>\<rparr>"
  have h: "orth_ao ?L (global_mol ?g) = orth_ao stub_libs (global_mol ex_g)"
    "intor_symmetric ?L (global_mol ?g) = intor_symmetric stub_libs (global_mol ex_g)"
    "nao_nr ?L (mol ex_mc) = nao_nr stub_libs (mol ex_mc)"
    "eigh ?L = eigh stub_libs"
    by (simp_all add: stub_libs_def ex_g_def ex_mol_def ex_mc_def)
  have n: "?g \<noteq> ex_g"
  proof
    assume "?g = ex_g"
    then have "global_mol ?g = global_mol ex_g"
      by (rule arg_cong)
    then have "spin (global_mol ?g) = spin (global_mol ex_g)"
      by (rule arg_cong)
    then show False
      by (simp add: ex_g_def ex_mol_def)
  qed
  from same_arrays_same_output [OF h] h n show ?thesis
    by blast
qed

subsection \<open>C9: the transform and the overlap come from the global \<open>mol\<close>\<close>





subsection \<open>C2: the spin-summed density in the orthogonal basis\<close>

text \<open>
  C2. For every pair of density matrices of the shape of the overlap and every transform
  with the rows of the overlap, lines 45 to 49 raise nothing and compute what the
  specification words: \<open>dm_mixed = dm_alpha + dm_beta\<close> (no broadcasting takes place),
  \<open>cinv = orth_transform\<^sup>T S\<close>, and \<open>dm_orth = cinv dm_mixed cinv\<^sup>T\<close>, where entry
  \<open>(i, j)\<close> of the last is the sum over \<open>k\<close> and \<open>l\<close> of
  \<open>cinv[i, k] dm_mixed[k, l] cinv[j, l]\<close>.
\<close>

theorem density_to_orthogonal_basis:
  assumes "orth_ao L (global_mol g) = Inr corth" "intor_symmetric L (global_mol g) = Inr S"
    and "nrows corth = nrows S"
    and "nrows dma = ncols S" "ncols dma = ncols S" "nrows dmb = ncols S" "ncols dmb = ncols S"
  shows "add_mat dma dmb = Inr (spec_dm_mixed dma dmb) \<and>
         dot (transpose_mat corth) S = Inr (spec_cinv corth S) \<and>
         dmet_orth L g (dma, dmb) = Inr (corth, S, spec_dm_orth corth S dma dmb)"
proof -
  have a: "add_mat dma dmb = Inr (spec_dm_mixed dma dmb)"
    using assms(4-7) by (simp add: add_mat_same_shape)
  have c: "dot (transpose_mat corth) S = Inr (spec_cinv corth S)"
    using assms(3) by (simp add: dot_mm cinv_spec)
  have "mm (mm (spec_cinv corth S) (spec_dm_mixed dma dmb)) (transpose_mat (spec_cinv corth S))
      = spec_dm_orth corth S dma dmb"
    unfolding spec_dm_orth_def Let_def
    using assms(4,5) by (subst triple_product_spec) simp_all
  with dmet_orth_returns[OF assms] have "dmet_orth L g (dma, dmb) = Inr (corth, S, spec_dm_orth corth S dma dmb)"
    by (simp add: cinv_spec)
  with a c show ?thesis by simp
qed

lemma ex2_orth:
  "dmet_orth stub_libs ex_g2 ex_dm =
     Inr (diag_mat [1/2, 1, 1, 1], diag_mat [4, 1, 1, 1], diag_mat [0, 1, 2, 1])"
  by code_simp

theorem density_to_orthogonal_basis_witness:
  "orth_ao stub_libs (global_mol ex_g2) = Inr (diag_mat [1/2, 1, 1, 1]) \<and>
   intor_symmetric stub_libs (global_mol ex_g2) = Inr (diag_mat [4, 1, 1, 1]) \<and>
   spec_dm_orth (diag_mat [1/2, 1, 1, 1]) (diag_mat [4, 1, 1, 1]) (fst ex_dm) (snd ex_dm)
     = diag_mat [0, 1, 2, 1] \<and>
   dmet_orth stub_libs ex_g2 ex_dm =
     Inr (diag_mat [1/2, 1, 1, 1], diag_mat [4, 1, 1, 1], diag_mat [0, 1, 2, 1])"
proof -
  have c: "orth_ao stub_libs (global_mol ex_g2) = Inr (diag_mat [1/2, 1, 1, 1])"
    and s: "intor_symmetric stub_libs (global_mol ex_g2) = Inr (diag_mat [4, 1, 1, 1])"
    by (simp_all add: stub_libs_def ex_g2_def ex_mol2_def)
  have d: "nrows (diag_mat [1/2, 1, 1, 1]) = nrows (diag_mat [4, 1, 1, 1])"
    "nrows (fst ex_dm) = ncols (diag_mat [4, 1, 1, 1])" "ncols (fst ex_dm) = ncols (diag_mat [4, 1, 1, 1])"
    "nrows (snd ex_dm) = ncols (diag_mat [4, 1, 1, 1])" "ncols (snd ex_dm) = ncols (diag_mat [4, 1, 1, 1])"
    by (simp_all add: diag_mat_def ex_dm_def)
  from density_to_orthogonal_basis [OF c s d]
  have "dmet_orth stub_libs ex_g2 (fst ex_dm, snd ex_dm) =
     Inr (diag_mat [1/2, 1, 1, 1], diag_mat [4, 1, 1, 1],
          spec_dm_orth (diag_mat [1/2, 1, 1, 1]) (diag_mat [4, 1, 1, 1]) (fst ex_dm) (snd ex_dm))"
    by blast
  with ex2_orth c s show ?thesis by simp
qed

subsection \<open>C4: the Fock matrix, the canonical blocks and their assembly\<close>

text \<open>
  C4. When lines 37 to 64 have returned the three blocks, on mean-field arrays of the
  shapes of the data model and with an eigensolver that returns eigenvectors of the shape
  of its argument: the Fock matrix of line 71 is \<open>S (hf_coeff * hf_energy) hf_coeff\<^sup>T S\<close>,
  entry by entry; it is the one matrix \<open>F\<close> used for all three blocks; each block \<open>B\<close> is
  replaced by \<open>B\<close> times the eigenvectors of \<open>B\<^sup>T F B\<close>, which depends on no other block;
  and the result is the columns of the canonical core block, then of the active block,
  then of the external block. An error of the eigensolver on a block is the error of the
  selector.
\<close>

theorem canonical_blocks_assembled:
  assumes p: "dmet_partition L g mc dm implst = Inr (s, bathorb, imporb, mocore, mocas, moext)"
    and sh: "nrows (mo_coeff (scf mc)) = nrows s" "ncols s = nrows s"
            "length (mo_energy (scf mc)) = ncols (mo_coeff (scf mc))"
    and es: "eigh_shape L"
  shows "dmet_fock s (scf mc) = Inr (spec_fock s (mo_coeff (scf mc)) (mo_energy (scf mc))) \<and>
         dmet_cas L g mc dm implst =
           (let F = spec_fock s (mo_coeff (scf mc)) (mo_energy (scf mc)) in
            rbind (spec_canonical L F mocore) (\<lambda>c.
            rbind (spec_canonical L F mocas) (\<lambda>a.
            rbind (spec_canonical L F moext) (\<lambda>e.
            Inr (spec_assemble c a e)))))"
proof -
  let ?F = "spec_fock s (mo_coeff (scf mc)) (mo_energy (scf mc))"
  have f: "dmet_fock s (scf mc) = Inr ?F"
    using sh by (rule fock_spec_scf)
  have F: "ncols ?F = nrows ?F" using sh(2) by simp
  note nr = partition_nrows[OF p]
  have k: "canonicalize L ?F mocore = spec_canonical L ?F mocore"
    "canonicalize L ?F mocas = spec_canonical L ?F mocas"
    "canonicalize L ?F moext = spec_canonical L ?F moext"
    using nr F es by (simp_all add: canonicalize_spec)
  have h: "hstack [c, a, e] = Inr (spec_assemble c a e)"
    if "spec_canonical L ?F mocore = Inr c" "spec_canonical L ?F mocas = Inr a"
       "spec_canonical L ?F moext = Inr e" for c a e
    using that nr by (intro assemble_spec) (simp_all add: spec_canonical_nrows)
  have "dmet_cas L g mc dm implst =
          rbind (spec_canonical L ?F mocore) (\<lambda>c.
          rbind (spec_canonical L ?F mocas) (\<lambda>a.
          rbind (spec_canonical L ?F moext) (\<lambda>e.
          hstack [c, a, e])))"
    unfolding dmet_cas_def by (simp add: p f k del: hstack.simps)
  also have "\<dots> = rbind (spec_canonical L ?F mocore) (\<lambda>c.
          rbind (spec_canonical L ?F mocas) (\<lambda>a.
          rbind (spec_canonical L ?F moext) (\<lambda>e.
          Inr (spec_assemble c a e))))"
    by (cases "spec_canonical L ?F mocore"; cases "spec_canonical L ?F mocas";
        cases "spec_canonical L ?F moext") (simp_all add: h del: hstack.simps)
  finally show ?thesis using f by (simp add: Let_def)
qed

lemma ex2_partition:
  "dmet_partition stub_libs ex_g2 ex_mc ex_dm [1] =
     Inr (diag_mat [4, 1, 1, 1],
          Mat 4 3 [[0, 0, 1/2], [0, 0, 0], [1, 0, 0], [0, 1, 0]],
          Mat 4 1 [[0], [1], [0], [0]],
          Mat 4 1 [[0], [0], [1], [0]],
          Mat 4 2 [[0, 0], [1, 0], [0, 0], [0, 1]],
          Mat 4 1 [[1/2], [0], [0], [0]])"
  by code_simp

lemma ex2_fock:
  "dmet_fock (diag_mat [4, 1, 1, 1]) (scf ex_mc) = Inr (diag_mat [-48, 2, -1, 1])"
  by code_simp

theorem canonical_blocks_assembled_witness:
  "nrows (mo_coeff (scf ex_mc)) = nrows (diag_mat [4, 1, 1, 1]) \<and>
   ncols (diag_mat [4, 1, 1, 1]) = nrows (diag_mat [4, 1, 1, 1]) \<and>
   length (mo_energy (scf ex_mc)) = ncols (mo_coeff (scf ex_mc)) \<and>
   eigh_shape stub_libs \<and>
   spec_fock (diag_mat [4, 1, 1, 1]) (mo_coeff (scf ex_mc)) (mo_energy (scf ex_mc))
     = diag_mat [-48, 2, -1, 1] \<and>
   dmet_cas stub_libs ex_g2 ex_mc ex_dm [1] =
     rbind (spec_canonical stub_libs (diag_mat [-48, 2, -1, 1]) (Mat 4 1 [[0], [0], [1], [0]])) (\<lambda>c.
     rbind (spec_canonical stub_libs (diag_mat [-48, 2, -1, 1]) (Mat 4 2 [[0, 0], [1, 0], [0, 0], [0, 1]])) (\<lambda>a.
     rbind (spec_canonical stub_libs (diag_mat [-48, 2, -1, 1]) (Mat 4 1 [[1/2], [0], [0], [0]])) (\<lambda>e.
     Inr (spec_assemble c a e))))"
proof -
  have d: "nrows (mo_coeff (scf ex_mc)) = nrows (diag_mat [4, 1, 1, 1])"
    "ncols (diag_mat [4, 1, 1, 1]) = nrows (diag_mat [4, 1, 1, 1])"
    "length (mo_energy (scf ex_mc)) = ncols (mo_coeff (scf ex_mc))"
    by (simp_all add: diag_mat_def ex_mc_def eye_def)
  note t = canonical_blocks_assembled [OF ex2_partition d eigh_shape_stub]
  from t ex2_fock
  have f: "spec_fock (diag_mat [4, 1, 1, 1]) (mo_coeff (scf ex_mc)) (mo_energy (scf ex_mc))
     = diag_mat [-48, 2, -1, 1]"
    by simp
  from t have "dmet_cas stub_libs ex_g2 ex_mc ex_dm [1] =
     rbind (spec_canonical stub_libs (diag_mat [-48, 2, -1, 1]) (Mat 4 1 [[0], [0], [1], [0]])) (\<lambda>c.
     rbind (spec_canonical stub_libs (diag_mat [-48, 2, -1, 1]) (Mat 4 2 [[0, 0], [1, 0], [0, 0], [0, 1]])) (\<lambda>a.
     rbind (spec_canonical stub_libs (diag_mat [-48, 2, -1, 1]) (Mat 4 1 [[1/2], [0], [0], [0]])) (\<lambda>e.
     Inr (spec_assemble c a e))))"
    unfolding f Let_def by blast
  with d eigh_shape_stub f show ?thesis by blast
qed

subsection \<open>C3: the natural orbitals of the impurity and of its complement\<close>

text \<open>
  C3. Whenever lines 56 to 61 return: \<open>notimp\<close> is the complement of the impurity indices
  in \<open>[0, nao)\<close> in ascending order; the eigensolver is called on \<open>-dm[implst, implst]\<close>
  and on \<open>-dm[notimp, notimp]\<close>; \<open>imporb\<close> and \<open>bathorb\<close> are the impurity and the
  complement columns of the transform times the eigenvectors returned; and when what the
  eigensolver returned is an eigendecomposition with ascending eigenvalues, the occupation
  numbers of the natural orbitals are the negated eigenvalues, so they come in descending
  order in each block.
\<close>

theorem natural_orbitals:
  assumes n: "dmet_natorb L nao corth dm implst = Inr (bathorb, imporb)"
  shows "sorted (notimp_of nao implst) \<and> distinct (notimp_of nao implst) \<and>
         set (notimp_of nao implst) = {..<nao} - set implst \<and>
         (\<exists>occi ui occb ub.
            eigh L (neg_mat (spec_sub dm implst)) = Inr (occi, ui) \<and>
            eigh L (neg_mat (spec_sub dm (notimp_of nao implst))) = Inr (occb, ub) \<and>
            imporb = mm (cols_of corth implst) ui \<and>
            bathorb = mm (cols_of corth (notimp_of nao implst)) ub \<and>
            (eigh_correct (neg_mat (spec_sub dm implst)) occi ui \<longrightarrow>
               occupations (spec_sub dm implst) ui = map uminus occi \<and>
               sorted (rev (occupations (spec_sub dm implst) ui))) \<and>
            (eigh_correct (neg_mat (spec_sub dm (notimp_of nao implst))) occb ub \<longrightarrow>
               occupations (spec_sub dm (notimp_of nao implst)) ub = map uminus occb \<and>
               sorted (rev (occupations (spec_sub dm (notimp_of nao implst)) ub))))"
proof -
  let ?notimp = "notimp_of nao implst"
  from n obtain dii occi ui dbb occb ub where
    h: "sub_block dm implst = Inr dii" "eigh L (neg_mat dii) = Inr (occi, ui)"
    "sub_block dm ?notimp = Inr dbb" "eigh L (neg_mat dbb) = Inr (occb, ub)"
    "dot (cols_of corth ?notimp) ub = Inr bathorb"
    "dot (cols_of corth implst) ui = Inr imporb"
    by (rule dmet_natorb_cases)
  have d: "dii = spec_sub dm implst" "dbb = spec_sub dm ?notimp"
    using h(1,3) by (simp_all add: sub_block_eq_Inr)
  have e: "eigh L (neg_mat (spec_sub dm implst)) = Inr (occi, ui)"
    "eigh L (neg_mat (spec_sub dm ?notimp)) = Inr (occb, ub)"
    "imporb = mm (cols_of corth implst) ui"
    "bathorb = mm (cols_of corth ?notimp) ub"
    using h(2,4,5,6) d by (simp_all add: dot_eq_Inr)
  have oi: "eigh_correct (neg_mat (spec_sub dm implst)) occi ui \<longrightarrow>
               occupations (spec_sub dm implst) ui = map uminus occi \<and>
               sorted (rev (occupations (spec_sub dm implst) ui))"
    using occupations_of_eigh[of "spec_sub dm implst" occi ui] by blast
  have ob: "eigh_correct (neg_mat (spec_sub dm ?notimp)) occb ub \<longrightarrow>
               occupations (spec_sub dm ?notimp) ub = map uminus occb \<and>
               sorted (rev (occupations (spec_sub dm ?notimp) ub))"
    using occupations_of_eigh[of "spec_sub dm ?notimp" occb ub] by blast
  have s: "sorted ?notimp" "distinct ?notimp" "set ?notimp = {..<nao} - set implst"
    by simp_all
  from e oi ob s show ?thesis
    by blast
qed

lemma ex_natorb:
  "dmet_natorb stub_libs 4 (eye 4) (diag_mat [0, 1, 2, 1]) [1] =
     Inr (Mat 4 3 [[0, 0, 1], [0, 0, 0], [1, 0, 0], [0, 1, 0]], Mat 4 1 [[0], [1], [0], [0]])"
  by code_simp

lemma ex_eigh_bath:
  "eigh stub_libs (neg_mat (spec_sub (diag_mat [0, 1, 2, 1]) (notimp_of 4 [1]))) =
     Inr ([-2, -1, 0], Mat 3 3 [[0, 0, 1], [1, 0, 0], [0, 1, 0]])"
  by code_simp

lemma ex_eigh_bath_diag:
  "is_diag (neg_mat (spec_sub (diag_mat [0, 1, 2, 1]) (notimp_of 4 [1])))"
  by code_simp

theorem natural_orbitals_witness:
  "dmet_natorb stub_libs 4 (eye 4) (diag_mat [0, 1, 2, 1]) [1] =
     Inr (Mat 4 3 [[0, 0, 1], [0, 0, 0], [1, 0, 0], [0, 1, 0]], Mat 4 1 [[0], [1], [0], [0]]) \<and>
   notimp_of 4 [1] = [0, 2, 3] \<and>
   eigh_correct (neg_mat (spec_sub (diag_mat [0, 1, 2, 1]) (notimp_of 4 [1])))
     [-2, -1, 0] (Mat 3 3 [[0, 0, 1], [1, 0, 0], [0, 1, 0]]) \<and>
   occupations (spec_sub (diag_mat [0, 1, 2, 1]) (notimp_of 4 [1]))
     (Mat 3 3 [[0, 0, 1], [1, 0, 0], [0, 1, 0]]) = [2, 1, 0] \<and>
   Mat 4 3 [[0, 0, 1], [0, 0, 0], [1, 0, 0], [0, 1, 0]] =
     mm (cols_of (eye 4) (notimp_of 4 [1])) (Mat 3 3 [[0, 0, 1], [1, 0, 0], [0, 1, 0]])"
proof -
  let ?D = "spec_sub (diag_mat [0, 1, 2, 1]) (notimp_of 4 [1])"
  let ?P = "Mat 3 3 [[0, 0, 1], [1, 0, 0], [0, 1, 0]]"
  have ni: "notimp_of 4 [1] = [0, 2, 3]"
    by code_simp
  have c: "eigh_correct (neg_mat ?D) [-2, -1, 0] ?P"
    using ex_eigh_bath by (intro eigh_diag_correct[OF ex_eigh_bath_diag]) (simp add: stub_libs_def)
  from natural_orbitals [OF ex_natorb] obtain occb ub where
    e: "eigh stub_libs (neg_mat ?D) = Inr (occb, ub)" and
    b: "Mat 4 3 [[0, 0, 1], [0, 0, 0], [1, 0, 0], [0, 1, 0]] = mm (cols_of (eye 4) (notimp_of 4 [1])) ub" and
    o: "eigh_correct (neg_mat ?D) occb ub \<longrightarrow> occupations ?D ub = map uminus occb"
    by blast
  from e ex_eigh_bath have [simp]: "occb = [-2, -1, 0]" "ub = ?P"
    by simp_all
  from o c have "occupations ?D ?P = [2, 1, 0]"
    by simp
  with ex_natorb ni c b show ?thesis
    by simp
qed


subsection \<open>C10: the triplet branch stops at an unbound name\<close>

text \<open>
  C10. No statement of the module binds \<open>idx3d\<close> or \<open>m\<close>. From every state in which no
  exception is pending and \<open>idx3d\<close> is unbound, whatever the library calls do, the run of
  lines 182 to 208 ends with an exception raised and without having entered the body of
  \<open>dmet_cas\<close>; when every library call returns, the exception is a \<open>NameError\<close>. The
  module as a whole, run from the empty state, likewise ends with an exception before the
  body of \<open>dmet_cas\<close> is entered at all (at \<open>m\<close>, line 156).
\<close>

theorem triplet_branch_fails:
  "''idx3d'' \<notin> set (binds_of (steps_of script)) \<and>
   ''m'' \<notin> set (binds_of (steps_of script)) \<and>
   (raised st = None \<and> ''idx3d'' \<notin> set (bound st) \<longrightarrow>
      raised (run ok (steps_of triplet_branch) st) \<noteq> None \<and>
      sel_calls (run ok (steps_of triplet_branch) st) = sel_calls st \<and>
      ((\<forall>f. ok f) \<longrightarrow> (\<exists>x. raised (run ok (steps_of triplet_branch) st) = Some (NameError x)))) \<and>
   raised (run ok (steps_of script) init_state) \<noteq> None \<and>
   sel_calls (run ok (steps_of script) init_state) = 0"
proof (intro conjI impI)
  show "''idx3d'' \<notin> set (binds_of (steps_of script))"
    using never_bound by blast
  show "''m'' \<notin> set (binds_of (steps_of script))"
    using never_bound by blast
next
  assume a: "raised st = None \<and> ''idx3d'' \<notin> set (bound st)"
  have f: "raised (run ok (steps_of triplet_branch) st) \<noteq> None \<and>
        sel_calls (run ok (steps_of triplet_branch) st) = sel_calls st"
    using triplet_idx3d a by (intro run_fails_at_first_read) blast+
  from f show "raised (run ok (steps_of triplet_branch) st) \<noteq> None" by blast
  from f show "sel_calls (run ok (steps_of triplet_branch) st) = sel_calls st" by blast
  assume ok: "\<forall>f. ok f"
  from a have "raised st = None \<or> (\<exists>x. raised st = Some (NameError x))" by blast
  from run_name_error[OF ok this, of "steps_of triplet_branch"] f
  show "\<exists>x. raised (run ok (steps_of triplet_branch) st) = Some (NameError x)"
    by blast
next
  have i: "''m'' \<notin> set (bound init_state)" "raised init_state = None" "sel_calls init_state = 0"
    by (simp_all add: init_state_def)
  have f: "raised (run ok (steps_of script) init_state) \<noteq> None \<and>
        sel_calls (run ok (steps_of script) init_state) = sel_calls init_state"
    using script_m i by (intro run_fails_at_first_read) blast+
  from f show "raised (run ok (steps_of script) init_state) \<noteq> None" by blast
  from f i show "sel_calls (run ok (steps_of script) init_state) = 0" by simp
qed

text \<open>
  With \<open>m\<close> bound beforehand and every library call returning, the quintet part runs
  through, and the triplet branch then raises \<open>NameError\<close> at \<open>idx3d\<close>; the module as it
  stands raises \<open>NameError\<close> at \<open>m\<close>.
\<close>

lemma quintet_done_eval:
  "raised quintet_done = None \<and> ''idx3d'' \<notin> set (bound quintet_done) \<and> sel_calls quintet_done = 1"
  unfolding quintet_done_def run_def by code_simp

lemma triplet_eval:
  "raised (run (\<lambda>f. True) (steps_of triplet_branch) quintet_done) = Some (NameError ''idx3d'')"
  unfolding quintet_done_def run_def by code_simp

lemma script_eval:
  "raised (run (\<lambda>f. True) (steps_of script) init_state) = Some (NameError ''m'')"
  unfolding run_def by code_simp

theorem triplet_branch_fails_witness:
  "raised quintet_done = None \<and> ''idx3d'' \<notin> set (bound quintet_done) \<and>
   raised (run (\<lambda>f. True) (steps_of triplet_branch) quintet_done) = Some (NameError ''idx3d'') \<and>
   sel_calls (run (\<lambda>f. True) (steps_of triplet_branch) quintet_done) = 1 \<and>
   raised (run (\<lambda>f. True) (steps_of script) init_state) = Some (NameError ''m'') \<and>
   sel_calls (run (\<lambda>f. True) (steps_of script) init_state) = 0"
  using triplet_branch_fails[of quintet_done "\<lambda>f. True"] quintet_done_eval triplet_eval script_eval
  by simp
end
